theory Spec2Isabelle
  imports Main "HOL-Library.Sublist" "HOL-Library.Multiset"
begin

section \<open>Data model (model.ts)\<close>

text \<open>
  A JSON value as the program holds it in memory. Strings are byte strings. A number is
  kept as the text of its literal: no operation of the flash store computes with a number,
  it only stores it and writes it back. The members of an object are its own properties in
  the order of their creation, with distinct names.
\<close>

datatype json =
    JNull
  | JBool bool
  | JNum string
  | JStr string
  | JArr "json list"
  | JObj "(string \<times> json) list"

text \<open>
  \<^verbatim>\<open>interface FlashValue { readonly key: string[]; readonly value: JSONValue }\<close> and
  \<^verbatim>\<open>interface Flash { readonly values: FlashValue[]; readonly valid: boolean }\<close>.
  The field names carry a prefix because \<open>value\<close> and \<open>values\<close> are reserved words here.
\<close>

record FlashValue =
  fkey :: "string list"
  fvalue :: json

record Flash =
  fvalues :: "FlashValue list"
  fvalid :: bool

text \<open>The literal \<^verbatim>\<open>{ valid: false, values: [] }\<close> that the source writes in four places.\<close>

definition invalid_Flash :: Flash where
  "invalid_Flash = \<lparr>fvalues = [], fvalid = False\<rparr>"

section \<open>Key paths and filters (FlashStore, private helpers)\<close>

text \<open>
  The argument type \<^verbatim>\<open>string | string[] | string[][]\<close> of the filters. The empty array
  \<^verbatim>\<open>[]\<close> inhabits both array types; \<open>FPath []\<close> and \<open>FPaths []\<close> both stand for it and are
  treated alike by every function below.
\<close>

datatype filters = FString string | FPath "string list" | FPaths "string list list"

text \<open>The \<^verbatim>\<open>.length\<close> of a filter argument: of the string, or of the array.\<close>

fun filters_length :: "filters \<Rightarrow> nat" where
  "filters_length (FString s) = length s"
| "filters_length (FPath p) = length p"
| "filters_length (FPaths ps) = length ps"

text \<open>\<^verbatim>\<open>Array.prototype.every\<close> with the callback's index argument, and \<^verbatim>\<open>some\<close>.\<close>

fun every_from :: "nat \<Rightarrow> ('a \<Rightarrow> nat \<Rightarrow> bool) \<Rightarrow> 'a list \<Rightarrow> bool" where
  "every_from i p [] = True"
| "every_from i p (x # xs) = (p x i \<and> every_from (Suc i) p xs)"

definition every :: "('a \<Rightarrow> nat \<Rightarrow> bool) \<Rightarrow> 'a list \<Rightarrow> bool" where
  "every p xs = every_from 0 p xs"

definition some :: "('a \<Rightarrow> bool) \<Rightarrow> 'a list \<Rightarrow> bool" where
  "some p xs = list_ex p xs"

text \<open>
  \<^verbatim>\<open>normalizeFilters\<close>, in the order of its tests: a string; a non-empty array whose first
  element is an array; an empty array; otherwise one path.
\<close>

fun normalizeFilters :: "filters \<Rightarrow> string list list" where
  "normalizeFilters (FString s) = [[s]]"
| "normalizeFilters (FPaths (p # ps)) = p # ps"
| "normalizeFilters (FPaths []) = []"
| "normalizeFilters (FPath []) = []"
| "normalizeFilters (FPath (x # xs)) = [x # xs]"

text \<open>
  \<^verbatim>\<open>checkKeyAgainstFilters\<close>: some filter path \<open>f\<close> has
  \<^verbatim>\<open>f.every((part, i) => key.length > i && key[i] === part)\<close>.
\<close>

definition checkKeyAgainstFilters :: "string list \<Rightarrow> filters \<Rightarrow> bool" where
  "checkKeyAgainstFilters k flt =
     some (\<lambda>f. every (\<lambda>part i. length k > i \<and> k ! i = part) f) (normalizeFilters flt)"

text \<open>\<^verbatim>\<open>filterFlashValues\<close>: the pick test first, then the omit test.\<close>

definition filterFlashValues :: "FlashValue list \<Rightarrow> filters \<Rightarrow> filters \<Rightarrow> FlashValue list" where
  "filterFlashValues vs pick omit =
     filter (\<lambda>v.
       if filters_length pick > 0 \<and> \<not> checkKeyAgainstFilters (fkey v) pick then False
       else if filters_length omit > 0 \<and> checkKeyAgainstFilters (fkey v) omit then False
       else True) vs"

section \<open>JSON text (the built-ins \<^verbatim>\<open>JSON.parse\<close> and \<^verbatim>\<open>JSON.stringify\<close>)\<close>

text \<open>
  The store reads and writes its cookie through the two built-ins of the language. They
  are not code of the repository; the definitions below follow the JSON grammar
  (ECMA-404) and the serialisation rules of ECMA-262, over byte strings. A
  \<^verbatim>\<open>\uXXXX\<close> escape is read as the UTF-8 bytes of that code unit, each unit by itself
  (the two halves of a surrogate pair are not joined). Errors of the source are values of
  the type \<open>error\<close>; \<open>SyntaxError\<close> is what \<^verbatim>\<open>JSON.parse\<close> throws.
\<close>

datatype error =
    NoFlashStore | TypeError | SyntaxError | BodyUnreadable | IllTypedInputs | CookieRefused

datatype token =
    TLBrace | TRBrace | TLBracket | TRBracket | TColon | TComma
  | TString string | TNumber string | TTrue | TFalse | TNull

datatype numstate = NMinus | NZero | NInt | NDot | NFrac | NExp | NExpSign | NExpDigits

datatype lexmode =
    LIdle
  | LString string
  | LEscape string
  | LUnicode string "nat list"
  | LNumber numstate string
  | LLiteral string token

definition is_digit :: "char \<Rightarrow> bool" where
  "is_digit c \<longleftrightarrow> c \<in> set ''0123456789''"

definition is_ws :: "char \<Rightarrow> bool" where
  "is_ws c \<longleftrightarrow> c \<in> set [CHR '' '', CHR 0x09, CHR 0x0A, CHR 0x0D]"

definition hex_value :: "char \<Rightarrow> nat option" where
  "hex_value c =
     map_of (zip ''0123456789abcdefABCDEF''
                 [0, 1, 2, 3, 4, 5, 6, 7, 8, 9, 10, 11, 12, 13, 14, 15, 10, 11, 12, 13, 14, 15]) c"

definition encode_unit :: "nat \<Rightarrow> string" where
  "encode_unit u =
     (if u < 128 then [char_of u]
      else if u < 2048 then [char_of (192 + u div 64), char_of (128 + u mod 64)]
      else [char_of (224 + u div 4096), char_of (128 + (u div 64) mod 64),
            char_of (128 + u mod 64)])"

text \<open>The number grammar \<^verbatim>\<open>-? (0 | [1-9][0-9]*) (. [0-9]+)? ([eE] [+-]? [0-9]+)?\<close> as an automaton.\<close>

fun num_next :: "numstate \<Rightarrow> char \<Rightarrow> numstate option" where
  "num_next NMinus c =
     (if c = CHR ''0'' then Some NZero else if is_digit c then Some NInt else None)"
| "num_next NZero c =
     (if c = CHR ''.'' then Some NDot
      else if c = CHR ''e'' \<or> c = CHR ''E'' then Some NExp else None)"
| "num_next NInt c =
     (if is_digit c then Some NInt
      else if c = CHR ''.'' then Some NDot
      else if c = CHR ''e'' \<or> c = CHR ''E'' then Some NExp else None)"
| "num_next NDot c = (if is_digit c then Some NFrac else None)"
| "num_next NFrac c =
     (if is_digit c then Some NFrac
      else if c = CHR ''e'' \<or> c = CHR ''E'' then Some NExp else None)"
| "num_next NExp c =
     (if c = CHR ''+'' \<or> c = CHR ''-'' then Some NExpSign
      else if is_digit c then Some NExpDigits else None)"
| "num_next NExpSign c = (if is_digit c then Some NExpDigits else None)"
| "num_next NExpDigits c = (if is_digit c then Some NExpDigits else None)"

fun num_accepting :: "numstate \<Rightarrow> bool" where
  "num_accepting NZero = True"
| "num_accepting NInt = True"
| "num_accepting NFrac = True"
| "num_accepting NExpDigits = True"
| "num_accepting _ = False"

text \<open>One character read between tokens. The token list is kept in reverse.\<close>

definition lex_idle :: "char \<Rightarrow> token list \<Rightarrow> (lexmode \<times> token list) option" where
  "lex_idle c ts =
     (if is_ws c then Some (LIdle, ts)
      else if c = CHR ''{'' then Some (LIdle, TLBrace # ts)
      else if c = CHR ''}'' then Some (LIdle, TRBrace # ts)
      else if c = CHR ''['' then Some (LIdle, TLBracket # ts)
      else if c = CHR '']'' then Some (LIdle, TRBracket # ts)
      else if c = CHR '':'' then Some (LIdle, TColon # ts)
      else if c = CHR '','' then Some (LIdle, TComma # ts)
      else if c = CHR 0x22 then Some (LString [], ts)
      else if c = CHR ''-'' then Some (LNumber NMinus [c], ts)
      else if c = CHR ''0'' then Some (LNumber NZero [c], ts)
      else if is_digit c then Some (LNumber NInt [c], ts)
      else if c = CHR ''t'' then Some (LLiteral ''rue'' TTrue, ts)
      else if c = CHR ''f'' then Some (LLiteral ''alse'' TFalse, ts)
      else if c = CHR ''n'' then Some (LLiteral ''ull'' TNull, ts)
      else None)"

text \<open>
  One character read in any mode. Inside a string the accumulated bytes are kept in
  reverse; a control character below \<open>0x20\<close> may not occur unescaped.
\<close>

fun lex_step :: "lexmode \<Rightarrow> char \<Rightarrow> token list \<Rightarrow> (lexmode \<times> token list) option" where
  "lex_step LIdle c ts = lex_idle c ts"
| "lex_step (LString acc) c ts =
     (if c = CHR 0x22 then Some (LIdle, TString (rev acc) # ts)
      else if c = CHR 0x5C then Some (LEscape acc, ts)
      else if (of_char c :: nat) < 32 then None
      else Some (LString (c # acc), ts))"
| "lex_step (LEscape acc) c ts =
     (if c = CHR 0x22 \<or> c = CHR 0x5C \<or> c = CHR ''/'' then Some (LString (c # acc), ts)
      else if c = CHR ''b'' then Some (LString (CHR 0x08 # acc), ts)
      else if c = CHR ''f'' then Some (LString (CHR 0x0C # acc), ts)
      else if c = CHR ''n'' then Some (LString (CHR 0x0A # acc), ts)
      else if c = CHR ''r'' then Some (LString (CHR 0x0D # acc), ts)
      else if c = CHR ''t'' then Some (LString (CHR 0x09 # acc), ts)
      else if c = CHR ''u'' then Some (LUnicode acc [], ts)
      else None)"
| "lex_step (LUnicode acc ds) c ts =
     (case hex_value c of
        None \<Rightarrow> None
      | Some d \<Rightarrow>
          (if length ds < 3 then Some (LUnicode acc (ds @ [d]), ts)
           else Some (LString (rev (encode_unit (foldl (\<lambda>n x. 16 * n + x) 0 (ds @ [d]))) @ acc), ts)))"
| "lex_step (LNumber st acc) c ts =
     (case num_next st c of
        Some st' \<Rightarrow> Some (LNumber st' (c # acc), ts)
      | None \<Rightarrow> (if num_accepting st then lex_idle c (TNumber (rev acc) # ts) else None))"
| "lex_step (LLiteral rest tok) c ts =
     (case rest of
        [] \<Rightarrow> None
      | r # rs \<Rightarrow>
          (if c \<noteq> r then None
           else if rs = [] then Some (LIdle, tok # ts)
           else Some (LLiteral rs tok, ts)))"

fun lex_finish :: "lexmode \<Rightarrow> token list \<Rightarrow> token list option" where
  "lex_finish LIdle ts = Some (rev ts)"
| "lex_finish (LNumber st acc) ts =
     (if num_accepting st then Some (rev (TNumber (rev acc) # ts)) else None)"
| "lex_finish _ ts = None"

fun lex_run :: "lexmode \<Rightarrow> token list \<Rightarrow> string \<Rightarrow> token list option" where
  "lex_run m ts [] = lex_finish m ts"
| "lex_run m ts (c # cs) =
     (case lex_step m c ts of None \<Rightarrow> None | Some (m', ts') \<Rightarrow> lex_run m' ts' cs)"

text \<open>
  The parser is a stack machine over the tokens. A frame is an array under construction
  (its elements in reverse) or an object under construction (its members, and the name
  whose value is being read). Defining a name twice keeps its first position and its last
  value, as \<^verbatim>\<open>JSON.parse\<close> does.
\<close>

datatype frame = FArr "json list" | FObj "(string \<times> json) list" string

datatype pmode = PValue | PArrayStart | PObjectStart | PName | PColon | PAfter | PDone json

fun obj_set :: "(string \<times> 'a) list \<Rightarrow> string \<Rightarrow> 'a \<Rightarrow> (string \<times> 'a) list" where
  "obj_set [] k v = [(k, v)]"
| "obj_set ((k', v') # ms) k v = (if k' = k then (k, v) # ms else (k', v') # obj_set ms k v)"

fun complete :: "json \<Rightarrow> frame list \<Rightarrow> pmode \<times> frame list" where
  "complete v [] = (PDone v, [])"
| "complete v (FArr xs # st) = (PAfter, FArr (v # xs) # st)"
| "complete v (FObj ms k # st) = (PAfter, FObj (obj_set ms k v) k # st)"

fun start_value :: "token \<Rightarrow> frame list \<Rightarrow> (pmode \<times> frame list) option" where
  "start_value TLBrace st = Some (PObjectStart, FObj [] [] # st)"
| "start_value TLBracket st = Some (PArrayStart, FArr [] # st)"
| "start_value (TString s) st = Some (complete (JStr s) st)"
| "start_value (TNumber n) st = Some (complete (JNum n) st)"
| "start_value TTrue st = Some (complete (JBool True) st)"
| "start_value TFalse st = Some (complete (JBool False) st)"
| "start_value TNull st = Some (complete JNull st)"
| "start_value _ st = None"

fun set_name :: "string \<Rightarrow> frame list \<Rightarrow> (pmode \<times> frame list) option" where
  "set_name k (FObj ms _ # st) = Some (PColon, FObj ms k # st)"
| "set_name k _ = None"

fun close_array :: "frame list \<Rightarrow> (pmode \<times> frame list) option" where
  "close_array (FArr xs # st) = Some (complete (JArr (rev xs)) st)"
| "close_array _ = None"

fun close_object :: "frame list \<Rightarrow> (pmode \<times> frame list) option" where
  "close_object (FObj ms _ # st) = Some (complete (JObj ms) st)"
| "close_object _ = None"

fun after_comma :: "frame list \<Rightarrow> (pmode \<times> frame list) option" where
  "after_comma (FArr xs # st) = Some (PValue, FArr xs # st)"
| "after_comma (FObj ms k # st) = Some (PName, FObj ms k # st)"
| "after_comma [] = None"

fun parse_step :: "pmode \<Rightarrow> frame list \<Rightarrow> token \<Rightarrow> (pmode \<times> frame list) option" where
  "parse_step PValue st tok = start_value tok st"
| "parse_step PArrayStart st tok = (if tok = TRBracket then close_array st else start_value tok st)"
| "parse_step PObjectStart st tok =
     (case tok of TRBrace \<Rightarrow> close_object st | TString k \<Rightarrow> set_name k st | _ \<Rightarrow> None)"
| "parse_step PName st tok = (case tok of TString k \<Rightarrow> set_name k st | _ \<Rightarrow> None)"
| "parse_step PColon st tok = (if tok = TColon then Some (PValue, st) else None)"
| "parse_step PAfter st tok =
     (case tok of
        TComma \<Rightarrow> after_comma st
      | TRBracket \<Rightarrow> close_array st
      | TRBrace \<Rightarrow> close_object st
      | _ \<Rightarrow> None)"
| "parse_step (PDone v) st tok = None"

fun parse_run :: "pmode \<Rightarrow> frame list \<Rightarrow> token list \<Rightarrow> json option" where
  "parse_run m st [] = (case (m, st) of (PDone v, []) \<Rightarrow> Some v | _ \<Rightarrow> None)"
| "parse_run m st (tok # toks) =
     (case parse_step m st tok of None \<Rightarrow> None | Some (m', st') \<Rightarrow> parse_run m' st' toks)"

definition JSON_parse :: "string \<Rightarrow> error + json" where
  "JSON_parse text =
     (case lex_run LIdle [] text of
        None \<Rightarrow> Inl SyntaxError
      | Some toks \<Rightarrow> (case parse_run PValue [] toks of None \<Rightarrow> Inl SyntaxError | Some v \<Rightarrow> Inr v))"

text \<open>
  The order in which the own properties of an object are enumerated (by \<^verbatim>\<open>for ... in\<close>
  and by \<^verbatim>\<open>JSON.stringify\<close>): the names that are array indices first, in ascending numeric
  order, then the other names in the order of their creation.
\<close>

definition int_of_digits :: "string \<Rightarrow> int" where
  "int_of_digits s = foldl (\<lambda>n c. 10 * n + (of_char c - 48)) 0 s"

definition is_array_index :: "string \<Rightarrow> bool" where
  "is_array_index s \<longleftrightarrow>
     s \<noteq> [] \<and> list_all is_digit s \<and> (s = ''0'' \<or> hd s \<noteq> CHR ''0'') \<and>
     int_of_digits s \<le> 4294967294"

definition own_entries :: "(string \<times> 'a) list \<Rightarrow> (string \<times> 'a) list" where
  "own_entries ms =
     sort_key (\<lambda>e. int_of_digits (fst e)) (filter (\<lambda>e. is_array_index (fst e)) ms)
     @ filter (\<lambda>e. \<not> is_array_index (fst e)) ms"

text \<open>
  \<^verbatim>\<open>JSON.stringify\<close> with no indentation. In a string, the quote and the backslash are
  escaped, the control characters below \<open>0x20\<close> are written by their short escape or as
  \<^verbatim>\<open>\u00XX\<close>, every other byte is written as it is.
\<close>

definition hex_digit :: "nat \<Rightarrow> char" where
  "hex_digit n = ''0123456789abcdef'' ! (n mod 16)"

definition quote_char :: "char \<Rightarrow> string" where
  "quote_char c =
     (if c = CHR 0x22 then [CHR 0x5C, CHR 0x22]
      else if c = CHR 0x5C then [CHR 0x5C, CHR 0x5C]
      else if c = CHR 0x08 then [CHR 0x5C, CHR ''b'']
      else if c = CHR 0x0C then [CHR 0x5C, CHR ''f'']
      else if c = CHR 0x0A then [CHR 0x5C, CHR ''n'']
      else if c = CHR 0x0D then [CHR 0x5C, CHR ''r'']
      else if c = CHR 0x09 then [CHR 0x5C, CHR ''t'']
      else if (of_char c :: nat) < 32
        then [CHR 0x5C, CHR ''u'', CHR ''0'', CHR ''0'',
              hex_digit (of_char c div 16), hex_digit (of_char c)]
      else [c])"

definition quote :: "string \<Rightarrow> string" where
  "quote s = [CHR 0x22] @ concat (map quote_char s) @ [CHR 0x22]"

fun join :: "string \<Rightarrow> string list \<Rightarrow> string" where
  "join sep [] = []"
| "join sep [x] = x"
| "join sep (x # y # ys) = x @ sep @ join sep (y # ys)"

fun JSON_stringify :: "json \<Rightarrow> string" where
  "JSON_stringify JNull = ''null''"
| "JSON_stringify (JBool b) = (if b then ''true'' else ''false'')"
| "JSON_stringify (JNum n) = n"
| "JSON_stringify (JStr s) = quote s"
| "JSON_stringify (JArr xs) = ''['' @ join '','' (map JSON_stringify xs) @ '']''"
| "JSON_stringify (JObj ms) =
     ''{'' @ join '','' (map (\<lambda>e. quote (fst e) @ '':'' @ snd e)
                         (own_entries (map (\<lambda>(k, v). (k, JSON_stringify v)) ms))) @ ''}''"

section \<open>Form data (formdata-flash.ts)\<close>

text \<open>
  A \<^verbatim>\<open>FormData\<close> is the list of its entries in the order of submission; a value is a
  string or a file (its name and its contents).
\<close>

datatype entry_value = StringValue string | FileValue string string

type_synonym FormData = "(string \<times> entry_value) list"

definition fd_get :: "FormData \<Rightarrow> string \<Rightarrow> entry_value option" where
  "fd_get fd name = map_option snd (find (\<lambda>e. fst e = name) fd)"

definition fd_has :: "FormData \<Rightarrow> string \<Rightarrow> bool" where
  "fd_has fd name \<longleftrightarrow> find (\<lambda>e. fst e = name) fd \<noteq> None"

definition fd_getAll :: "FormData \<Rightarrow> string \<Rightarrow> entry_value list" where
  "fd_getAll fd name = map snd (filter (\<lambda>e. fst e = name) fd)"

text \<open>
  \<^verbatim>\<open>Record<string, string[]>\<close>: the own properties of a plain object, in the order of
  their creation.
\<close>

type_synonym Record = "(string \<times> string list) list"

text \<open>
  The object \<^verbatim>\<open>obj\<close> of \<^verbatim>\<open>serializeFormData\<close> is created by the literal \<^verbatim>\<open>{}\<close>, so
  \<^verbatim>\<open>obj[key]\<close> also finds what the object inherits from \<^verbatim>\<open>Object.prototype\<close>. Which names
  are inherited belongs to the runtime; the functions below take them as the parameter
  \<open>inherited\<close>. ECMA-262 lists the names of \<open>ecma262_inherited\<close>. Every inherited value is
  a function or an object, hence truthy, and none has a method \<^verbatim>\<open>push\<close>.
\<close>

definition ecma262_inherited :: "string list" where
  "ecma262_inherited =
     [''constructor'', ''hasOwnProperty'', ''isPrototypeOf'', ''propertyIsEnumerable'',
      ''toLocaleString'', ''toString'', ''valueOf'', ''__proto__'', ''__defineGetter__'',
      ''__defineSetter__'', ''__lookupGetter__'', ''__lookupSetter__'']"

text \<open>
  One round of the loop of \<^verbatim>\<open>serializeFormData\<close>:
  \<^verbatim>\<open>if (typeof value !== "string") continue; if (!obj[key]) obj[key] = []; obj[key].push(value)\<close>.
  An own property holds an array, which is truthy. For an inherited name the test
  \<^verbatim>\<open>!obj[key]\<close> fails, no own property is created, and the call of \<^verbatim>\<open>push\<close> raises a
  \<^verbatim>\<open>TypeError\<close>.
\<close>

fun serialize_entry :: "string list \<Rightarrow> Record \<Rightarrow> string \<times> entry_value \<Rightarrow> error + Record" where
  "serialize_entry inherited obj (k, FileValue n c) = Inr obj"
| "serialize_entry inherited obj (k, StringValue v) =
     (case map_of obj k of
        Some vs \<Rightarrow> Inr (obj_set obj k (vs @ [v]))
      | None \<Rightarrow>
          (if k \<in> set inherited then Inl TypeError
           else Inr (obj_set obj k [v])))"

fun serialize_loop :: "string list \<Rightarrow> Record \<Rightarrow> FormData \<Rightarrow> error + Record" where
  "serialize_loop inherited obj [] = Inr obj"
| "serialize_loop inherited obj (e # es) =
     (case serialize_entry inherited obj e of
        Inl err \<Rightarrow> Inl err
      | Inr obj' \<Rightarrow> serialize_loop inherited obj' es)"

definition serializeFormData :: "string list \<Rightarrow> FormData \<Rightarrow> error + Record" where
  "serializeFormData inherited formData = serialize_loop inherited [] formData"

text \<open>
  \<^verbatim>\<open>deserializeFormData\<close>: \<^verbatim>\<open>for (const key in data) for (const value of data[key])
  formData.append(key, value)\<close>, the names in the enumeration order of the object.
\<close>

definition deserializeFormData :: "Record \<Rightarrow> FormData" where
  "deserializeFormData data =
     concat (map (\<lambda>(k, vs). map (\<lambda>v. (k, StringValue v)) vs) (own_entries data))"

section \<open>The request context (the framework's \<^verbatim>\<open>Context\<close> and cookie helpers)\<close>

text \<open>
  What the store uses of the framework's context: the cookies of the request, the form
  body of the request (\<open>None\<close> when reading it as a form fails), and the
  \<^verbatim>\<open>Set-Cookie\<close> headers of the response in the order they were appended.
  \<^verbatim>\<open>deleteCookie\<close> and \<^verbatim>\<open>setCookie\<close> are the framework's: \<^verbatim>\<open>deleteCookie\<close> returns the
  request's cookie of that name and appends a header that expires it; \<^verbatim>\<open>setCookie\<close>
  appends a header.

  The framework refuses to write a cookie that lacks the \<^verbatim>\<open>Secure\<close> attribute under a name
  that starts with \<^verbatim>\<open>__Secure-\<close> or \<^verbatim>\<open>__Host-\<close>: it raises an error instead. The store
  never passes that attribute, and its cookie name is free configuration. The first cookie
  a store writes is the expiring one of \<^verbatim>\<open>deleteCookie\<close>, in its constructor and outside of
  any \<^verbatim>\<open>try\<close>: the refusal is raised there, as \<open>CookieRefused\<close>. A store that exists
  therefore has a name that is not refused, and \<open>setCookie\<close> below, which \<^verbatim>\<open>commit\<close> calls
  under that same name, is the header appended.
\<close>

record SetCookie =
  sc_name :: string
  sc_value :: string
  sc_path :: string
  sc_maxAge :: "nat option"

record Context =
  req_cookies :: "(string \<times> string) list"
  req_formData :: "FormData option"
  res_setCookie :: "SetCookie list"

definition setCookie :: "Context \<Rightarrow> string \<Rightarrow> string \<Rightarrow> string \<Rightarrow> nat option \<Rightarrow> Context" where
  "setCookie c name v path maxAge =
     c\<lparr>res_setCookie := res_setCookie c @
          [\<lparr>sc_name = name, sc_value = v, sc_path = path, sc_maxAge = maxAge\<rparr>]\<rparr>"

definition refused_name :: "string \<Rightarrow> bool" where
  "refused_name name \<longleftrightarrow> prefix ''__Secure-'' name \<or> prefix ''__Host-'' name"

definition deleteCookie :: "Context \<Rightarrow> string \<Rightarrow> error + string option \<times> Context" where
  "deleteCookie c name =
     (if refused_name name then Inl CookieRefused
      else Inr (map_of (req_cookies c) name, setCookie c name [] ''/'' (Some 0)))"

section \<open>The schema check (model.ts)\<close>

text \<open>
  \<^verbatim>\<open>isFlashValue\<close>: an object (\<^verbatim>\<open>typeof value === "object"\<close>, not \<^verbatim>\<open>null\<close>) whose \<^verbatim>\<open>key\<close> is
  an array of strings and that has a property \<^verbatim>\<open>value\<close>. An array is an object too, but it
  has no property \<^verbatim>\<open>key\<close>.
\<close>

fun is_JStr :: "json \<Rightarrow> bool" where
  "is_JStr (JStr s) = True"
| "is_JStr _ = False"

fun isFlashValue :: "json \<Rightarrow> bool" where
  "isFlashValue (JObj ms) =
     (case map_of ms ''key'' of
        Some (JArr ks) \<Rightarrow> (if \<not> list_all is_JStr ks then False else map_of ms ''value'' \<noteq> None)
      | _ \<Rightarrow> False)"
| "isFlashValue _ = False"

text \<open>
  \<^verbatim>\<open>isFlash\<close>: an object whose \<^verbatim>\<open>values\<close> is an array of flash values and whose \<^verbatim>\<open>valid\<close>
  is a boolean. On an array, \<^verbatim>\<open>values\<close> is the inherited method, which is no array.
\<close>

fun isFlash :: "json \<Rightarrow> bool" where
  "isFlash (JObj ms) =
     (case map_of ms ''values'' of
        Some (JArr vs) \<Rightarrow>
          (if \<not> list_all isFlashValue vs then False
           else (case map_of ms ''valid'' of Some (JBool b) \<Rightarrow> True | _ \<Rightarrow> False))
      | _ \<Rightarrow> False)"
| "isFlash _ = False"

text \<open>
  The parsed value seen through the interfaces \<^verbatim>\<open>Flash\<close> and \<^verbatim>\<open>FlashValue\<close>, which is how
  the store reads it once \<^verbatim>\<open>isFlash\<close> has accepted it. The records keep the fields the
  interfaces declare.
\<close>

fun the_string :: "json \<Rightarrow> string" where
  "the_string (JStr s) = s"
| "the_string _ = []"

fun as_FlashValue :: "json \<Rightarrow> FlashValue" where
  "as_FlashValue (JObj ms) =
     \<lparr>fkey = (case map_of ms ''key'' of Some (JArr ks) \<Rightarrow> map the_string ks | _ \<Rightarrow> []),
      fvalue = (case map_of ms ''value'' of Some v \<Rightarrow> v | None \<Rightarrow> JNull)\<rparr>"
| "as_FlashValue _ = \<lparr>fkey = [], fvalue = JNull\<rparr>"

fun as_Flash :: "json \<Rightarrow> Flash" where
  "as_Flash (JObj ms) =
     \<lparr>fvalues = (case map_of ms ''values'' of Some (JArr vs) \<Rightarrow> map as_FlashValue vs | _ \<Rightarrow> []),
      fvalid = (case map_of ms ''valid'' of Some (JBool b) \<Rightarrow> b | _ \<Rightarrow> False)\<rparr>"
| "as_Flash _ = \<lparr>fvalues = [], fvalid = False\<rparr>"

text \<open>The objects the store builds, as \<^verbatim>\<open>JSON.stringify\<close> sees them.\<close>

definition FlashValue_to_json :: "FlashValue \<Rightarrow> json" where
  "FlashValue_to_json v = JObj [(''key'', JArr (map JStr (fkey v))), (''value'', fvalue v)]"

definition Flash_to_json :: "Flash \<Rightarrow> json" where
  "Flash_to_json f =
     JObj [(''valid'', JBool (fvalid f)), (''values'', JArr (map FlashValue_to_json (fvalues f)))]"

definition Record_to_json :: "Record \<Rightarrow> json" where
  "Record_to_json r = JObj (map (\<lambda>(k, vs). (k, JArr (map JStr vs))) r)"

text \<open>
  The cast \<^verbatim>\<open>inputValues.value as Record<string, string[]>\<close> of \<^verbatim>\<open>getInputs\<close> is not
  checked by the program. \<open>as_Record\<close> gives the record when the value has that type.
\<close>

fun as_string_list :: "json \<Rightarrow> string list option" where
  "as_string_list (JArr xs) = (if list_all is_JStr xs then Some (map the_string xs) else None)"
| "as_string_list _ = None"

fun as_Record_members :: "(string \<times> json) list \<Rightarrow> Record option" where
  "as_Record_members [] = Some []"
| "as_Record_members ((k, v) # ms) =
     (case as_string_list v of
        None \<Rightarrow> None
      | Some vs \<Rightarrow> (case as_Record_members ms of None \<Rightarrow> None | Some r \<Rightarrow> Some ((k, vs) # r)))"

fun as_Record :: "json \<Rightarrow> Record option" where
  "as_Record (JObj ms) = as_Record_members ms"
| "as_Record _ = None"

section \<open>FlashStore (flash-store.class.ts)\<close>

text \<open>
  The fields of the class. \<open>ctx\<close> and \<open>nxt\<close> stand for \<^verbatim>\<open>context\<close> and \<^verbatim>\<open>next\<close>, which
  are reserved words here. A method that assigns a field returns the updated store.
\<close>

record FlashStore =
  ctx :: Context
  cookieName :: string
  current :: Flash
  nxt :: Flash

text \<open>
  \<^verbatim>\<open>initialize\<close>. The call of \<^verbatim>\<open>deleteCookie\<close> comes first and stands outside of the
  \<^verbatim>\<open>try\<close>: what it raises leaves \<^verbatim>\<open>initialize\<close> and the constructor. An absent cookie
  and the empty string are both falsy. The \<^verbatim>\<open>try\<close> block is \<open>initialize_try\<close>; the
  \<^verbatim>\<open>catch\<close> turns whatever it raises into the invalid container.
\<close>

definition initialize_try :: "string \<Rightarrow> error + Flash" where
  "initialize_try rawCookieValue =
     (case JSON_parse rawCookieValue of
        Inl err \<Rightarrow> Inl err
      | Inr parsed \<Rightarrow> Inr (if \<not> isFlash parsed then invalid_Flash else as_Flash parsed))"

definition initialize :: "Context \<Rightarrow> string \<Rightarrow> error + Flash \<times> Context" where
  "initialize c name =
     (case deleteCookie c name of
        Inl err \<Rightarrow> Inl err
      | Inr (None, c') \<Rightarrow> Inr (invalid_Flash, c')
      | Inr (Some rawCookieValue, c') \<Rightarrow>
          (if rawCookieValue = [] then Inr (invalid_Flash, c')
           else (case initialize_try rawCookieValue of
                   Inr f \<Rightarrow> Inr (f, c')
                 | Inl err \<Rightarrow> Inr (invalid_Flash, c'))))"

text \<open>
  The constructor: \<^verbatim>\<open>next\<close> starts as the invalid container, \<^verbatim>\<open>current\<close> is initialized.
  It raises what \<^verbatim>\<open>initialize\<close> raises.
\<close>

definition new_FlashStore :: "Context \<Rightarrow> string \<Rightarrow> error + FlashStore" where
  "new_FlashStore c name =
     (case initialize c name of
        Inl err \<Rightarrow> Inl err
      | Inr (f, c') \<Rightarrow> Inr \<lparr>ctx = c', cookieName = name, current = f, nxt = invalid_Flash\<rparr>)"

text \<open>The argument type \<^verbatim>\<open>string[] | string\<close> of a key, and \<^verbatim>\<open>[key].flat()\<close>.\<close>

datatype keyarg = KString string | KArray "string list"

fun flat :: "keyarg \<Rightarrow> string list" where
  "flat (KString s) = [s]"
| "flat (KArray ks) = ks"

definition flash :: "keyarg \<Rightarrow> json \<Rightarrow> FlashStore \<Rightarrow> FlashStore" where
  "flash k v s =
     s\<lparr>nxt := \<lparr>fvalues = fvalues (nxt s) @ [\<lparr>fkey = ''ext'' # flat k, fvalue = v\<rparr>],
               fvalid = True\<rparr>\<rparr>"

text \<open>
  \<^verbatim>\<open>flashInputs\<close>: reading the form body may fail, and so may \<^verbatim>\<open>serializeFormData\<close>; the
  store is then left as it was.
\<close>

definition flashInputs :: "string list \<Rightarrow> FlashStore \<Rightarrow> error + FlashStore" where
  "flashInputs inherited s =
     (case req_formData (ctx s) of
        None \<Rightarrow> Inl BodyUnreadable
      | Some formData \<Rightarrow>
          (case serializeFormData inherited formData of
             Inl err \<Rightarrow> Inl err
           | Inr serialized \<Rightarrow>
               Inr (s\<lparr>nxt := \<lparr>fvalues = fvalues (nxt s) @
                                  [\<lparr>fkey = [''inputs''], fvalue = Record_to_json serialized\<rparr>],
                               fvalid = True\<rparr>\<rparr>)))"

text \<open>
  \<^verbatim>\<open>getInputs\<close>: \<open>Inr None\<close> is the return of \<^verbatim>\<open>undefined\<close>. When the stored value does not
  have the type the cast asserts, what the loops of \<^verbatim>\<open>deserializeFormData\<close> do with it is
  the runtime's coercion of ill-typed values; the model stops there with \<open>IllTypedInputs\<close>.
\<close>

definition getInputs :: "FlashStore \<Rightarrow> error + FormData option" where
  "getInputs s =
     (if \<not> fvalid (current s) then Inr None
      else (case find (\<lambda>v. length (fkey v) = 1 \<and> fkey v ! 0 = ''inputs'') (fvalues (current s)) of
              None \<Rightarrow> Inr None
            | Some inputValues \<Rightarrow>
                (case as_Record (fvalue inputValues) of
                   None \<Rightarrow> Inl IllTypedInputs
                 | Some r \<Rightarrow> Inr (Some (deserializeFormData r)))))"

text \<open>
  \<^verbatim>\<open>get\<close> has two overloads: without a filter it returns the container \<^verbatim>\<open>current\<close>, with
  a filter the list of the matching values.
\<close>

datatype get_result = Container Flash | Values "json list"

fun get :: "FlashStore \<Rightarrow> keyarg option \<Rightarrow> get_result" where
  "get s None = Container (current s)"
| "get s (Some keyFilter) =
     Values (map fvalue
       (filter (\<lambda>v. every (\<lambda>k i. length (fkey v) > i \<and> fkey v ! i = k) (''ext'' # flat keyFilter))
               (fvalues (current s))))"

text \<open>
  The options of \<^verbatim>\<open>reflash\<close>; \<open>None\<close> is an option left out, which takes its default:
  \<^verbatim>\<open>append = true\<close>, \<^verbatim>\<open>omit = []\<close>, \<^verbatim>\<open>pick = []\<close>.
\<close>

record ReflashOptions =
  opt_append :: "bool option"
  opt_omit :: "filters option"
  opt_pick :: "filters option"

definition no_options :: ReflashOptions where
  "no_options = \<lparr>opt_append = None, opt_omit = None, opt_pick = None\<rparr>"

definition or_empty :: "filters option \<Rightarrow> filters" where
  "or_empty opt = (case opt of None \<Rightarrow> FPath [] | Some p \<Rightarrow> p)"

definition or_true :: "bool option \<Rightarrow> bool" where
  "or_true opt = (case opt of None \<Rightarrow> True | Some b \<Rightarrow> b)"

definition valuesToReflash :: "ReflashOptions \<Rightarrow> FlashStore \<Rightarrow> FlashValue list" where
  "valuesToReflash opts s =
     filterFlashValues (fvalues (current s)) (or_empty (opt_pick opts)) (or_empty (opt_omit opts))"

definition reflash :: "ReflashOptions \<Rightarrow> FlashStore \<Rightarrow> FlashStore" where
  "reflash opts s =
     (if or_true (opt_append opts)
      then s\<lparr>nxt := \<lparr>fvalues = fvalues (nxt s) @ valuesToReflash opts s, fvalid = True\<rparr>\<rparr>
      else s\<lparr>nxt := \<lparr>fvalues = valuesToReflash opts s, fvalid = True\<rparr>\<rparr>)"

definition commit :: "FlashStore \<Rightarrow> FlashStore" where
  "commit s =
     (if \<not> fvalid (nxt s) then s
      else s\<lparr>ctx := setCookie (ctx s) (cookieName s)
                       (JSON_stringify (Flash_to_json (nxt s))) ''/'' None\<rparr>)"

section \<open>The request scope and the exported functions (flash.ts, old.ts)\<close>

text \<open>
  \<^verbatim>\<open>FLASH_RUNTIME_STORE.getStore()\<close> is the store bound by the middleware for the running
  request, or \<^verbatim>\<open>undefined\<close> outside of it: a \<open>FlashStore option\<close>. The exported functions
  act on the bound store, so they return the scope with the store updated.
\<close>

type_synonym scope = "FlashStore option"

definition getFlashStore :: "scope \<Rightarrow> error + FlashStore" where
  "getFlashStore sc = (case sc of None \<Rightarrow> Inl NoFlashStore | Some store \<Rightarrow> Inr store)"

definition flashInputs_export :: "string list \<Rightarrow> scope \<Rightarrow> error + scope" where
  "flashInputs_export inherited sc =
     (case getFlashStore sc of
        Inl err \<Rightarrow> Inl err
      | Inr store \<Rightarrow>
          (case flashInputs inherited store of Inl err \<Rightarrow> Inl err | Inr store' \<Rightarrow> Inr (Some store')))"

definition flash_export :: "keyarg \<Rightarrow> json \<Rightarrow> scope \<Rightarrow> error + scope" where
  "flash_export k v sc =
     (case getFlashStore sc of Inl err \<Rightarrow> Inl err | Inr store \<Rightarrow> Inr (Some (flash k v store)))"

text \<open>
  The exported \<^verbatim>\<open>reflash\<close> names the omit option \<^verbatim>\<open>except\<close>; it defaults \<^verbatim>\<open>append\<close> to
  \<^verbatim>\<open>true\<close> and passes the two filters on as they are.
\<close>

definition reflash_export :: "bool option \<Rightarrow> filters option \<Rightarrow> filters option \<Rightarrow> scope \<Rightarrow> error + scope" where
  "reflash_export append_opt pick_opt except_opt sc =
     (case getFlashStore sc of
        Inl err \<Rightarrow> Inl err
      | Inr store \<Rightarrow>
          Inr (Some (reflash
            \<lparr>opt_append = Some (or_true append_opt),
             opt_omit = except_opt, opt_pick = pick_opt\<rparr> store)))"

definition getFlash :: "keyarg \<Rightarrow> scope \<Rightarrow> error + get_result" where
  "getFlash filters sc =
     (case getFlashStore sc of Inl err \<Rightarrow> Inl err | Inr store \<Rightarrow> Inr (get store (Some filters)))"

definition old :: "string \<Rightarrow> scope \<Rightarrow> error + entry_value option" where
  "old name sc =
     (case getFlashStore sc of
        Inl err \<Rightarrow> Inl err
      | Inr store \<Rightarrow>
          (case getInputs store of
             Inl err \<Rightarrow> Inl err
           | Inr None \<Rightarrow> Inr None
           | Inr (Some fd) \<Rightarrow> Inr (fd_get fd name)))"

definition oldChecked :: "string \<Rightarrow> scope \<Rightarrow> error + bool option" where
  "oldChecked name sc =
     (case getFlashStore sc of
        Inl err \<Rightarrow> Inl err
      | Inr store \<Rightarrow>
          (case getInputs store of
             Inl err \<Rightarrow> Inl err
           | Inr None \<Rightarrow> Inr None
           | Inr (Some fd) \<Rightarrow> Inr (Some (fd_has fd name))))"

definition oldSelected :: "string \<Rightarrow> string \<Rightarrow> scope \<Rightarrow> error + bool option" where
  "oldSelected name optionValue sc =
     (case getFlashStore sc of
        Inl err \<Rightarrow> Inl err
      | Inr store \<Rightarrow>
          (case getInputs store of
             Inl err \<Rightarrow> Inl err
           | Inr None \<Rightarrow> Inr None
           | Inr (Some fd) \<Rightarrow> Inr (Some (StringValue optionValue \<in> set (fd_getAll fd name)))))"

section \<open>Notions of the specification\<close>

text \<open>
  The matching rule in the words of the specification: a filter path matches a key when it
  is no longer than the key and agrees with it segment by segment; a key matches a list of
  filter paths when some path of the list matches it.
\<close>

definition path_is_prefix :: "string list \<Rightarrow> string list \<Rightarrow> bool" where
  "path_is_prefix f k \<longleftrightarrow> length f \<le> length k \<and> (\<forall>i < length f. f ! i = k ! i)"

definition matches :: "string list \<Rightarrow> string list list \<Rightarrow> bool" where
  "matches k fs \<longleftrightarrow> (\<exists>f \<in> set fs. path_is_prefix f k)"

text \<open>
  What a filter argument means, in the words of the specification: it is given as a single
  segment (a path of that one segment), as a flat list of segments (one path of several
  segments), or as a list of such paths. It is empty when it is the empty string or an
  empty list. Both notions are written here from the specification alone; they use neither
  \<open>normalizeFilters\<close> nor \<open>filters_length\<close>.
\<close>

fun given_paths :: "filters \<Rightarrow> string list list" where
  "given_paths (FString segment) = [[segment]]"
| "given_paths (FPath segments) = [segments]"
| "given_paths (FPaths paths) = paths"

fun is_empty_filter :: "filters \<Rightarrow> bool" where
  "is_empty_filter (FString segment) \<longleftrightarrow> segment = []"
| "is_empty_filter (FPath segments) \<longleftrightarrow> segments = []"
| "is_empty_filter (FPaths paths) \<longleftrightarrow> paths = []"

text \<open>
  The survival rule of \<^verbatim>\<open>reflash\<close> in the words of the specification: a value survives
  when pick is empty or its key matches some pick path, and omit is empty or its key
  matches no omit path.
\<close>

definition survives :: "filters \<Rightarrow> filters \<Rightarrow> string list \<Rightarrow> bool" where
  "survives pick omit k \<longleftrightarrow>
     (is_empty_filter pick \<or> matches k (given_paths pick)) \<and>
     (is_empty_filter omit \<or> \<not> matches k (given_paths omit))"

text \<open>
  A key given to \<^verbatim>\<open>flash\<close> and then used as the \<^verbatim>\<open>pick\<close> of \<^verbatim>\<open>reflash\<close>: the same
  string or array of strings, read at the type of a filter.
\<close>

fun as_filters :: "keyarg \<Rightarrow> filters" where
  "as_filters (KString s) = FString s"
| "as_filters (KArray ks) = FPath ks"

text \<open>
  The calls a handler can make on the store between two points of a request. A failing
  \<^verbatim>\<open>flashInputs\<close> assigns nothing, so it leaves the store as it was.
\<close>

datatype store_call = Call_flash keyarg json | Call_flashInputs | Call_reflash ReflashOptions

fun call :: "string list \<Rightarrow> FlashStore \<Rightarrow> store_call \<Rightarrow> FlashStore" where
  "call inherited s (Call_flash k v) = flash k v s"
| "call inherited s Call_flashInputs =
     (case flashInputs inherited s of Inl err \<Rightarrow> s | Inr s' \<Rightarrow> s')"
| "call inherited s (Call_reflash opts) = reflash opts s"

definition calls :: "string list \<Rightarrow> store_call list \<Rightarrow> FlashStore \<Rightarrow> FlashStore" where
  "calls inherited cs s = foldl (call inherited) s cs"

text \<open>The string entries of a form submission, and the test for them.\<close>

fun is_StringValue :: "entry_value \<Rightarrow> bool" where
  "is_StringValue (StringValue s) = True"
| "is_StringValue (FileValue n c) = False"

definition string_entries :: "FormData \<Rightarrow> FormData" where
  "string_entries fd = filter (\<lambda>e. is_StringValue (snd e)) fd"

section \<open>Example requests\<close>

text \<open>
  Concrete requests for the theorems below: a request that carries no cookie and a request
  that carries a flash cookie. \<open>constructed c name f\<close> is the store that the constructor
  returns, when it returns, for the context \<open>c\<close> and the cookie name \<open>name\<close> with \<open>f\<close> read
  from the cookie: the context with the expiring header appended, \<^verbatim>\<open>next\<close> invalid. Each
  example store below comes with a proof that the constructor returns it.
\<close>

definition constructed :: "Context \<Rightarrow> string \<Rightarrow> Flash \<Rightarrow> FlashStore" where
  "constructed c name f =
     \<lparr>ctx = setCookie c name [] ''/'' (Some 0), cookieName = name, current = f,
      nxt = invalid_Flash\<rparr>"

definition request_without_cookie :: Context where
  "request_without_cookie = \<lparr>req_cookies = [], req_formData = None, res_setCookie = []\<rparr>"

definition request_with_cookie :: "string \<Rightarrow> Context" where
  "request_with_cookie raw =
     \<lparr>req_cookies = [(''flash'', raw)], req_formData = None, res_setCookie = []\<rparr>"

definition form_cookie :: string where
  "form_cookie = ''{\"valid\":true,\"values\":[{\"key\":[\"ext\",\"form\",\"errors\"],\"value\":\"e1\"},{\"key\":[\"inputs\"],\"value\":{\"name\":[\"Al\"]}},{\"key\":[\"ext\",\"form\",\"debug\"],\"value\":\"d\"},{\"key\":[\"ext\",\"form\",\"errors\",\"name\"],\"value\":\"e2\"}]}''"

definition form_Flash :: Flash where
  "form_Flash =
     \<lparr>fvalues =
        [\<lparr>fkey = [''ext'', ''form'', ''errors''], fvalue = JStr ''e1''\<rparr>,
         \<lparr>fkey = [''inputs''], fvalue = JObj [(''name'', JArr [JStr ''Al''])]\<rparr>,
         \<lparr>fkey = [''ext'', ''form'', ''debug''], fvalue = JStr ''d''\<rparr>,
         \<lparr>fkey = [''ext'', ''form'', ''errors'', ''name''], fvalue = JStr ''e2''\<rparr>],
      fvalid = True\<rparr>"

definition form_store :: FlashStore where
  "form_store = constructed (request_with_cookie form_cookie) ''flash'' form_Flash"

definition fresh_store :: FlashStore where
  "fresh_store = constructed request_without_cookie ''flash'' invalid_Flash"

definition pick_form_omit_debug :: ReflashOptions where
  "pick_form_omit_debug =
     \<lparr>opt_append = None, opt_omit = Some (FPaths [[''ext'', ''form'', ''debug'']]),
      opt_pick = Some (FPath [''ext'', ''form''])\<rparr>"

definition too_short_cookie :: string where
  "too_short_cookie = ''{\"valid\":true,\"values\":[{\"key\":[\"ext\",\"error\"],\"value\":\"too short\"}]}''"

definition too_short_Flash :: Flash where
  "too_short_Flash =
     \<lparr>fvalues = [\<lparr>fkey = [''ext'', ''error''], fvalue = JStr ''too short''\<rparr>], fvalid = True\<rparr>"

definition too_short_store :: FlashStore where
  "too_short_store = constructed (request_with_cookie too_short_cookie) ''flash'' too_short_Flash"

text \<open>A cookie that passes the schema check although its \<^verbatim>\<open>valid\<close> is false.\<close>

definition invalid_but_filled_cookie :: string where
  "invalid_but_filled_cookie = ''{\"valid\":false,\"values\":[{\"key\":[\"ext\",\"a\"],\"value\":\"x\"}]}''"

definition invalid_but_filled_store :: FlashStore where
  "invalid_but_filled_store =
     constructed (request_with_cookie invalid_but_filled_cookie) ''flash''
       \<lparr>fvalues = [\<lparr>fkey = [''ext'', ''a''], fvalue = JStr ''x''\<rparr>], fvalid = False\<rparr>"

text \<open>The cookie written after \<^verbatim>\<open>flash("", "v")\<close>.\<close>

definition empty_key_cookie :: string where
  "empty_key_cookie = ''{\"valid\":true,\"values\":[{\"key\":[\"ext\",\"\"],\"value\":\"v\"}]}''"

definition empty_key_store :: FlashStore where
  "empty_key_store =
     constructed (request_with_cookie empty_key_cookie) ''flash''
       \<lparr>fvalues = [\<lparr>fkey = [''ext'', ''''], fvalue = JStr ''v''\<rparr>], fvalid = True\<rparr>"

text \<open>The options of \<^verbatim>\<open>reflash({pick: k})\<close> for a key \<open>k\<close> that was given to \<^verbatim>\<open>flash\<close>.\<close>

definition pick_only :: "keyarg \<Rightarrow> ReflashOptions" where
  "pick_only k = \<lparr>opt_append = None, opt_omit = None, opt_pick = Some (as_filters k)\<rparr>"

text \<open>
  The values a record holds under a name (none when the name is not an own property), and
  the string values a form submission holds under a name, in the order of submission.
\<close>

definition values_of :: "Record \<Rightarrow> string \<Rightarrow> string list" where
  "values_of obj k = (case map_of obj k of None \<Rightarrow> [] | Some vs \<Rightarrow> vs)"

fun named_strings :: "FormData \<Rightarrow> string \<Rightarrow> string list" where
  "named_strings [] n = []"
| "named_strings ((k, StringValue s) # es) n = (if k = n then s # named_strings es n else named_strings es n)"
| "named_strings ((k, FileValue f c) # es) n = named_strings es n"

text \<open>A submission whose two values of the field \<open>a\<close> are separated by the field \<open>b\<close>.\<close>

definition interleaved_form :: FormData where
  "interleaved_form =
     [(''a'', StringValue ''1''), (''b'', StringValue ''2''), (''a'', StringValue ''3'')]"

section \<open>Key path matching: proofs\<close>

lemma every_from_nth:
  "every_from n p xs \<longleftrightarrow> (\<forall>i < length xs. p (xs ! i) (n + i))"
proof (induction xs arbitrary: n)
  case Nil
  show ?case by simp
next
  case (Cons x xs)
  have "(\<forall>i < Suc (length xs). p ((x # xs) ! i) (n + i)) \<longleftrightarrow>
        p x n \<and> (\<forall>i < length xs. p (xs ! i) (Suc n + i))"
    by (auto simp: less_Suc_eq_0_disj)
  with Cons.IH [of "Suc n"] show ?case by simp
qed

lemma every_path_is_prefix:
  "every (\<lambda>part i. length k > i \<and> k ! i = part) f \<longleftrightarrow> path_is_prefix f k"
proof
  assume e: "every (\<lambda>part i. length k > i \<and> k ! i = part) f"
  then have all: "\<forall>i < length f. i < length k \<and> k ! i = f ! i"
    by (simp add: every_def every_from_nth)
  have "length f \<le> length k"
  proof (cases f)
    case Nil
    then show ?thesis by simp
  next
    case (Cons a as)
    then have "length f - 1 < length f" by simp
    with all have "length f - 1 < length k" by blast
    then show ?thesis by simp
  qed
  with all show "path_is_prefix f k" by (simp add: path_is_prefix_def)
next
  assume "path_is_prefix f k"
  then show "every (\<lambda>part i. length k > i \<and> k ! i = part) f"
    by (auto simp: path_is_prefix_def every_def every_from_nth)
qed

lemma path_is_prefix_iff_prefix: "path_is_prefix f k \<longleftrightarrow> prefix f k"
proof
  assume p: "path_is_prefix f k"
  then have "take (length f) k = f"
    by (auto simp: path_is_prefix_def intro: nth_equalityI)
  then show "prefix f k" by (metis take_is_prefix)
next
  assume "prefix f k"
  then obtain zs where "k = f @ zs" by (auto simp: prefix_def)
  then show "path_is_prefix f k" by (simp add: path_is_prefix_def nth_append)
qed

lemma checkKeyAgainstFilters_matches:
  "checkKeyAgainstFilters k flt \<longleftrightarrow> matches k (normalizeFilters flt)"
  by (simp add: checkKeyAgainstFilters_def some_def matches_def list_ex_iff every_path_is_prefix)

lemma normalizeFilters_FPaths: "normalizeFilters (FPaths fs) = fs"
  by (cases fs) simp_all

lemma filters_length_empty: "0 < filters_length f \<longleftrightarrow> \<not> is_empty_filter f"
  by (cases f) auto

lemma normalizeFilters_given: "\<not> is_empty_filter f \<Longrightarrow> normalizeFilters f = given_paths f"
  by (cases f) (auto simp: neq_Nil_conv)

lemma check_given:
  "\<not> is_empty_filter f \<Longrightarrow> checkKeyAgainstFilters k f \<longleftrightarrow> matches k (given_paths f)"
  by (simp add: checkKeyAgainstFilters_matches normalizeFilters_given)

lemma filterFlashValues_survives:
  "filterFlashValues vs pick omit = filter (\<lambda>v. survives pick omit (fkey v)) vs"
  unfolding filterFlashValues_def
proof (rule filter_cong [OF refl])
  fix v
  show "(if 0 < filters_length pick \<and> \<not> checkKeyAgainstFilters (fkey v) pick then False
         else if 0 < filters_length omit \<and> checkKeyAgainstFilters (fkey v) omit then False
         else True) = survives pick omit (fkey v)"
  proof (cases "is_empty_filter pick")
    case True
    note p = this
    show ?thesis
    proof (cases "is_empty_filter omit")
      case True
      with p show ?thesis by (simp add: survives_def filters_length_empty)
    next
      case False
      with p show ?thesis by (simp add: survives_def filters_length_empty check_given)
    qed
  next
    case False
    note p = this
    show ?thesis
    proof (cases "is_empty_filter omit")
      case True
      with p show ?thesis by (simp add: survives_def filters_length_empty check_given)
    next
      case False
      with p show ?thesis by (simp add: survives_def filters_length_empty check_given)
    qed
  qed
qed

section \<open>Claims about key paths and filters\<close>

text \<open>
  Claim C5. Matching a key \<open>k\<close> against the single filter path \<open>f\<close> succeeds exactly when
  \<open>f\<close> is a prefix of \<open>k\<close>: \<open>f\<close> is no longer than \<open>k\<close> and every segment of \<open>f\<close> equals the
  segment of \<open>k\<close> at the same position. It fails when \<open>f\<close> is longer than \<open>k\<close> and when the
  two differ at some position of \<open>f\<close>. Matching against several paths is the disjunction
  of matching against each, also after \<^verbatim>\<open>normalizeFilters\<close> of any filter argument.
\<close>

theorem C5_prefix_filter_correctness:
  "(checkKeyAgainstFilters k (FPaths [f]) \<longleftrightarrow> path_is_prefix f k) \<and>
   (length k < length f \<longrightarrow> \<not> checkKeyAgainstFilters k (FPaths [f])) \<and>
   (\<forall>i < length f. i < length k \<longrightarrow> f ! i \<noteq> k ! i \<longrightarrow>
      \<not> checkKeyAgainstFilters k (FPaths [f])) \<and>
   (checkKeyAgainstFilters k (FPaths fs) \<longleftrightarrow>
      (\<exists>f \<in> set fs. checkKeyAgainstFilters k (FPaths [f]))) \<and>
   (checkKeyAgainstFilters k flt \<longleftrightarrow>
      (\<exists>f \<in> set (normalizeFilters flt). path_is_prefix f k))"
proof -
  have one: "checkKeyAgainstFilters k (FPaths [g]) \<longleftrightarrow> path_is_prefix g k" for g
    by (simp add: checkKeyAgainstFilters_matches matches_def)
  have longer: "length k < length f \<longrightarrow> \<not> checkKeyAgainstFilters k (FPaths [f])"
    by (simp add: one path_is_prefix_def)
  have diverge: "\<forall>i < length f. i < length k \<longrightarrow> f ! i \<noteq> k ! i \<longrightarrow>
      \<not> checkKeyAgainstFilters k (FPaths [f])"
    by (auto simp: one path_is_prefix_def)
  have several: "checkKeyAgainstFilters k (FPaths fs) \<longleftrightarrow>
      (\<exists>f \<in> set fs. checkKeyAgainstFilters k (FPaths [f]))"
    by (simp add: one) (simp add: checkKeyAgainstFilters_matches matches_def normalizeFilters_FPaths)
  have general: "checkKeyAgainstFilters k flt \<longleftrightarrow>
      (\<exists>f \<in> set (normalizeFilters flt). path_is_prefix f k)"
    by (simp add: checkKeyAgainstFilters_matches matches_def)
  from one longer diverge several general show ?thesis by blast
qed

theorem C5_prefix_filter_correctness_witness:
  "checkKeyAgainstFilters [''form'', ''errors'', ''field1''] (FPaths [[''form'', ''errors'']]) \<and>
   \<not> checkKeyAgainstFilters [''form''] (FPaths [[''form'', ''errors'']]) \<and>
   \<not> checkKeyAgainstFilters [''a'', ''bc''] (FPaths [[''a'', ''b'']]) \<and>
   checkKeyAgainstFilters [''a'', ''bc''] (FPaths [[''a'', ''b''], [''a'']])"
proof -
  have p1: "path_is_prefix [''form'', ''errors''] [''form'', ''errors'', ''field1'']"
    by (simp add: path_is_prefix_def less_Suc_eq)
  have p2: "length [''form''] < length [''form'', ''errors'']"
    by simp
  have p3: "(1::nat) < length [''a'', ''b''] \<and> (1::nat) < length [''a'', ''bc''] \<and>
            [''a'', ''b''] ! 1 \<noteq> [''a'', ''bc''] ! 1"
    by simp
  have p4: "path_is_prefix [''a''] [''a'', ''bc'']"
    by (simp add: path_is_prefix_def)
  note t1 = C5_prefix_filter_correctness
    [of "[''form'', ''errors'', ''field1'']" "[''form'', ''errors'']" "[]" "FPaths []"]
  note t2 = C5_prefix_filter_correctness
    [of "[''form'']" "[''form'', ''errors'']" "[]" "FPaths []"]
  note t3 = C5_prefix_filter_correctness
    [of "[''a'', ''bc'']" "[''a'', ''b'']" "[]" "FPaths []"]
  note t4 = C5_prefix_filter_correctness
    [of "[''a'', ''bc'']" "[''a'']" "[[''a'', ''b''], [''a'']]" "FPaths []"]
  from t1 p1 have c1:
    "checkKeyAgainstFilters [''form'', ''errors'', ''field1''] (FPaths [[''form'', ''errors'']])"
    by blast
  from t2 p2 have c2: "\<not> checkKeyAgainstFilters [''form''] (FPaths [[''form'', ''errors'']])"
    by blast
  from t3 p3 have c3: "\<not> checkKeyAgainstFilters [''a'', ''bc''] (FPaths [[''a'', ''b'']])"
    by blast
  from t4 p4 have c4: "checkKeyAgainstFilters [''a'', ''bc''] (FPaths [[''a'', ''b''], [''a'']])"
    by simp
  from c1 c2 c3 c4 show ?thesis by blast
qed

section \<open>Claims about reflash and commit\<close>

text \<open>
  Claim C4. For every store and every call of \<^verbatim>\<open>reflash\<close>, the values carried forward are
  the values of \<^verbatim>\<open>current.values\<close> that pass the rule of the specification: pick is empty
  or the key matches some pick path by prefix, and omit is empty or the key matches no
  omit path by prefix. Here a string stands for the path of that one segment, a flat list
  for one path, a list of lists for its paths, and the empty string and the empty list are
  the empty filters. The order in which the code applies the two tests (pick first) does
  not show in the result. The survivors are a subsequence of \<^verbatim>\<open>current.values\<close>, so they
  keep their relative order and none occurs more often than before. They are appended to
  \<^verbatim>\<open>next.values\<close>, or replace it when \<^verbatim>\<open>append\<close> is false.
\<close>

theorem C4_pick_omit_precedence:
  "valuesToReflash opts s =
     filter (\<lambda>v. survives (or_empty (opt_pick opts)) (or_empty (opt_omit opts)) (fkey v))
            (fvalues (current s)) \<and>
   (v \<in> set (valuesToReflash opts s) \<longleftrightarrow>
      v \<in> set (fvalues (current s)) \<and>
      survives (or_empty (opt_pick opts)) (or_empty (opt_omit opts)) (fkey v)) \<and>
   subseq (valuesToReflash opts s) (fvalues (current s)) \<and>
   count (mset (valuesToReflash opts s)) v \<le> count (mset (fvalues (current s))) v \<and>
   fvalues (nxt (reflash opts s)) =
     (if or_true (opt_append opts) then fvalues (nxt s) @ valuesToReflash opts s
      else valuesToReflash opts s)"
proof -
  let ?P = "\<lambda>v. survives (or_empty (opt_pick opts)) (or_empty (opt_omit opts)) (fkey v)"
  have eq: "valuesToReflash opts s = filter ?P (fvalues (current s))"
    by (simp add: valuesToReflash_def filterFlashValues_survives)
  have mem: "v \<in> set (valuesToReflash opts s) \<longleftrightarrow> v \<in> set (fvalues (current s)) \<and> ?P v"
    by (simp add: eq)
  have sub: "subseq (valuesToReflash opts s) (fvalues (current s))"
    by (simp add: eq)
  have cnt: "count (mset (valuesToReflash opts s)) v \<le> count (mset (fvalues (current s))) v"
    by (simp add: eq)
  have nx: "fvalues (nxt (reflash opts s)) =
     (if or_true (opt_append opts) then fvalues (nxt s) @ valuesToReflash opts s
      else valuesToReflash opts s)"
    by (simp add: reflash_def)
  from eq mem sub cnt nx show ?thesis by blast
qed

lemma form_store_constructed:
  "new_FlashStore (request_with_cookie form_cookie) ''flash'' = Inr form_store"
  by code_simp

lemma form_store_current:
  "fvalues (current form_store) =
      [\<lparr>fkey = [''ext'', ''form'', ''errors''], fvalue = JStr ''e1''\<rparr>,
       \<lparr>fkey = [''inputs''], fvalue = JObj [(''name'', JArr [JStr ''Al''])]\<rparr>,
       \<lparr>fkey = [''ext'', ''form'', ''debug''], fvalue = JStr ''d''\<rparr>,
       \<lparr>fkey = [''ext'', ''form'', ''errors'', ''name''], fvalue = JStr ''e2''\<rparr>]"
  by (simp add: form_store_def constructed_def form_Flash_def)

theorem C4_pick_omit_precedence_witness:
  "new_FlashStore (request_with_cookie form_cookie) ''flash'' = Inr form_store \<and>
   valuesToReflash pick_form_omit_debug form_store =
     [\<lparr>fkey = [''ext'', ''form'', ''errors''], fvalue = JStr ''e1''\<rparr>,
      \<lparr>fkey = [''ext'', ''form'', ''errors'', ''name''], fvalue = JStr ''e2''\<rparr>] \<and>
   \<lparr>fkey = [''ext'', ''form'', ''debug''], fvalue = JStr ''d''\<rparr>
     \<notin> set (valuesToReflash pick_form_omit_debug form_store) \<and>
   \<lparr>fkey = [''inputs''], fvalue = JObj [(''name'', JArr [JStr ''Al''])]\<rparr>
     \<notin> set (valuesToReflash pick_form_omit_debug form_store) \<and>
   valuesToReflash
     \<lparr>opt_append = None, opt_omit = Some (FPath [''ext'', ''form'', ''errors'']),
      opt_pick = Some (FString ''ext'')\<rparr> form_store =
     [\<lparr>fkey = [''ext'', ''form'', ''debug''], fvalue = JStr ''d''\<rparr>] \<and>
   valuesToReflash
     \<lparr>opt_append = None, opt_omit = Some (FString ''ext''), opt_pick = Some (FString '''')\<rparr>
     form_store =
     [\<lparr>fkey = [''inputs''], fvalue = JObj [(''name'', JArr [JStr ''Al''])]\<rparr>] \<and>
   valuesToReflash
     \<lparr>opt_append = None, opt_omit = Some (FPath []), opt_pick = Some (FString ''form'')\<rparr>
     form_store = []"
proof -
  let ?o2 = "\<lparr>opt_append = None, opt_omit = Some (FPath [''ext'', ''form'', ''errors'']),
              opt_pick = Some (FString ''ext'')\<rparr>"
  let ?o3 = "\<lparr>opt_append = None, opt_omit = Some (FString ''ext''),
              opt_pick = Some (FString '''')\<rparr>"
  let ?o4 = "\<lparr>opt_append = None, opt_omit = Some (FPath []),
              opt_pick = Some (FString ''form'')\<rparr>"
  let ?d = "\<lparr>fkey = [''ext'', ''form'', ''debug''], fvalue = JStr ''d''\<rparr>"
  have f1: "filter (\<lambda>v. survives (or_empty (opt_pick pick_form_omit_debug))
                                   (or_empty (opt_omit pick_form_omit_debug)) (fkey v))
                   (fvalues (current form_store)) =
      [\<lparr>fkey = [''ext'', ''form'', ''errors''], fvalue = JStr ''e1''\<rparr>,
       \<lparr>fkey = [''ext'', ''form'', ''errors'', ''name''], fvalue = JStr ''e2''\<rparr>]"
    unfolding form_store_current
    by (simp add: pick_form_omit_debug_def or_empty_def survives_def matches_def
        path_is_prefix_iff_prefix)
  have f2: "filter (\<lambda>v. survives (or_empty (opt_pick ?o2)) (or_empty (opt_omit ?o2)) (fkey v))
                   (fvalues (current form_store)) = [?d]"
    unfolding form_store_current
    by (simp add: or_empty_def survives_def matches_def path_is_prefix_iff_prefix)
  have f3: "filter (\<lambda>v. survives (or_empty (opt_pick ?o3)) (or_empty (opt_omit ?o3)) (fkey v))
                   (fvalues (current form_store)) =
      [\<lparr>fkey = [''inputs''], fvalue = JObj [(''name'', JArr [JStr ''Al''])]\<rparr>]"
    unfolding form_store_current
    by (simp add: or_empty_def survives_def matches_def path_is_prefix_iff_prefix)
  have f4: "filter (\<lambda>v. survives (or_empty (opt_pick ?o4)) (or_empty (opt_omit ?o4)) (fkey v))
                   (fvalues (current form_store)) = []"
    unfolding form_store_current
    by (simp add: or_empty_def survives_def matches_def path_is_prefix_iff_prefix)
  from C4_pick_omit_precedence [of pick_form_omit_debug form_store ?d]
  have e1: "valuesToReflash pick_form_omit_debug form_store =
      filter (\<lambda>v. survives (or_empty (opt_pick pick_form_omit_debug))
                            (or_empty (opt_omit pick_form_omit_debug)) (fkey v))
             (fvalues (current form_store))"
    by blast
  from C4_pick_omit_precedence [of ?o2 form_store ?d]
  have e2: "valuesToReflash ?o2 form_store =
      filter (\<lambda>v. survives (or_empty (opt_pick ?o2)) (or_empty (opt_omit ?o2)) (fkey v))
             (fvalues (current form_store))"
    by blast
  from C4_pick_omit_precedence [of ?o3 form_store ?d]
  have e3: "valuesToReflash ?o3 form_store =
      filter (\<lambda>v. survives (or_empty (opt_pick ?o3)) (or_empty (opt_omit ?o3)) (fkey v))
             (fvalues (current form_store))"
    by blast
  from C4_pick_omit_precedence [of ?o4 form_store ?d]
  have e4: "valuesToReflash ?o4 form_store =
      filter (\<lambda>v. survives (or_empty (opt_pick ?o4)) (or_empty (opt_omit ?o4)) (fkey v))
             (fvalues (current form_store))"
    by blast
  show ?thesis
    unfolding e1 e2 e3 e4 f1 f2 f3 f4 by (simp add: form_store_constructed)
qed

text \<open>
  Claim C6. \<^verbatim>\<open>commit\<close> leaves the store, and with it the outgoing headers, as they are
  when \<^verbatim>\<open>next.valid\<close> is false. When \<^verbatim>\<open>next.valid\<close> is true it appends exactly one
  \<^verbatim>\<open>Set-Cookie\<close> header, under the store's cookie name and the path \<^verbatim>\<open>/\<close>, whose value is
  \<^verbatim>\<open>JSON.stringify(next)\<close>, and it changes nothing else.
\<close>

theorem C6_commit_gating:
  "(\<not> fvalid (nxt s) \<longrightarrow> commit s = s) \<and>
   (fvalid (nxt s) \<longrightarrow>
      res_setCookie (ctx (commit s)) =
        res_setCookie (ctx s) @
          [\<lparr>sc_name = cookieName s, sc_value = JSON_stringify (Flash_to_json (nxt s)),
            sc_path = ''/'', sc_maxAge = None\<rparr>] \<and>
      commit s = s\<lparr>ctx := (ctx s)\<lparr>res_setCookie := res_setCookie (ctx (commit s))\<rparr>\<rparr>)"
  by (simp add: commit_def setCookie_def)

theorem C6_commit_gating_witness:
  "commit form_store = form_store \<and>
   res_setCookie (ctx (commit (flash (KString ''success'') (JStr ''saved'') form_store))) =
     res_setCookie (ctx form_store) @
       [\<lparr>sc_name = ''flash'',
         sc_value = ''{\"valid\":true,\"values\":[{\"key\":[\"ext\",\"success\"],\"value\":\"saved\"}]}'',
         sc_path = ''/'', sc_maxAge = None\<rparr>]"
proof -
  have inv: "\<not> fvalid (nxt form_store)"
    by (simp add: form_store_def constructed_def invalid_Flash_def)
  have val: "fvalid (nxt (flash (KString ''success'') (JStr ''saved'') form_store))"
    by (simp add: flash_def)
  have nx: "nxt (flash (KString ''success'') (JStr ''saved'') form_store) =
      \<lparr>fvalues = [\<lparr>fkey = [''ext'', ''success''], fvalue = JStr ''saved''\<rparr>], fvalid = True\<rparr>"
    by (simp add: flash_def form_store_def constructed_def invalid_Flash_def)
  have str: "JSON_stringify (Flash_to_json (nxt (flash (KString ''success'') (JStr ''saved'') form_store)))
      = ''{\"valid\":true,\"values\":[{\"key\":[\"ext\",\"success\"],\"value\":\"saved\"}]}''"
    unfolding nx by code_simp
  have nm: "cookieName (flash (KString ''success'') (JStr ''saved'') form_store) = ''flash''"
    by (simp add: flash_def form_store_def constructed_def)
  have cx: "ctx (flash (KString ''success'') (JStr ''saved'') form_store) = ctx form_store"
    by (simp add: flash_def)
  from C6_commit_gating [of form_store] inv have a: "commit form_store = form_store"
    by blast
  from C6_commit_gating [of "flash (KString ''success'') (JStr ''saved'') form_store"] val
  have b: "res_setCookie (ctx (commit (flash (KString ''success'') (JStr ''saved'') form_store))) =
     res_setCookie (ctx (flash (KString ''success'') (JStr ''saved'') form_store)) @
       [\<lparr>sc_name = cookieName (flash (KString ''success'') (JStr ''saved'') form_store),
         sc_value = JSON_stringify (Flash_to_json (nxt (flash (KString ''success'') (JStr ''saved'') form_store))),
         sc_path = ''/'', sc_maxAge = None\<rparr>]"
    by blast
  from a b show ?thesis unfolding str nm cx by simp
qed

lemma fvalid_call: "fvalid (nxt s) \<Longrightarrow> fvalid (nxt (call inherited s c))"
  by (cases c) (auto simp: flash_def reflash_def flashInputs_def split: option.splits sum.splits)

lemma ctx_call: "ctx (call inherited s c) = ctx s \<and> cookieName (call inherited s c) = cookieName s"
  by (cases c) (auto simp: flash_def reflash_def flashInputs_def split: option.splits sum.splits)

lemma calls_keep:
  "fvalid (nxt s) \<Longrightarrow> fvalid (nxt (calls inherited cs s))"
  "ctx (calls inherited cs s) = ctx s"
  "cookieName (calls inherited cs s) = cookieName s"
  unfolding calls_def
  by (induction cs arbitrary: s) (simp_all add: fvalid_call ctx_call)

lemma commit_writes:
  "fvalid (nxt s) \<Longrightarrow>
   res_setCookie (ctx (commit s)) =
     res_setCookie (ctx s) @
       [\<lparr>sc_name = cookieName s, sc_value = JSON_stringify (Flash_to_json (nxt s)),
         sc_path = ''/'', sc_maxAge = None\<rparr>]"
  by (simp add: commit_def setCookie_def)

lemma stringify_empty_valid:
  "JSON_stringify (Flash_to_json \<lparr>fvalues = [], fvalid = True\<rparr>) = ''{\"valid\":true,\"values\":[]}''"
  by code_simp


lemma new_FlashStore_returns:
  "new_FlashStore c name = Inr s \<Longrightarrow> \<not> refused_name name \<and> s = constructed c name (current s)"
  by (auto simp: new_FlashStore_def initialize_def deleteCookie_def constructed_def
      split: if_splits option.splits sum.splits)

lemma new_FlashStore_no_cookie:
  "\<not> refused_name name \<Longrightarrow> map_of (req_cookies c) name = None \<Longrightarrow>
   new_FlashStore c name = Inr (constructed c name invalid_Flash)"
  by (simp add: new_FlashStore_def initialize_def deleteCookie_def constructed_def)

lemma new_FlashStore_cookie:
  "\<not> refused_name name \<Longrightarrow> map_of (req_cookies c) name = Some raw \<Longrightarrow> raw \<noteq> [] \<Longrightarrow>
   JSON_parse raw = Inr j \<Longrightarrow> isFlash j \<Longrightarrow>
   new_FlashStore c name = Inr (constructed c name (as_Flash j))"
  by (simp add: new_FlashStore_def initialize_def initialize_try_def deleteCookie_def
      constructed_def)

lemma flash_not_refused: "\<not> refused_name ''flash''"
  by (simp add: refused_name_def)

lemma fresh_store_constructed:
  "new_FlashStore request_without_cookie ''flash'' = Inr fresh_store"
  unfolding fresh_store_def
  by (rule new_FlashStore_no_cookie [OF flash_not_refused])
     (simp add: request_without_cookie_def)

text \<open>
  Claim C10. Every call of \<^verbatim>\<open>reflash\<close> leaves \<^verbatim>\<open>next.valid\<close> true, whatever the options
  and whatever \<^verbatim>\<open>current\<close> holds, and no later call on the store makes it false again. So a
  \<^verbatim>\<open>commit\<close> that follows a \<^verbatim>\<open>reflash\<close> appends a \<^verbatim>\<open>Set-Cookie\<close> header with the
  serialised \<^verbatim>\<open>next\<close>. On the store that the constructor returns for a request without
  cookie, where \<^verbatim>\<open>current.valid\<close> is false and nothing is carried forward, the value written
  is \<^verbatim>\<open>{"valid":true,"values":[]}\<close>.
\<close>

theorem C10_reflash_marks_next_valid:
  "fvalid (nxt (reflash opts s)) \<and>
   fvalid (nxt (calls inherited cs (reflash opts s))) \<and>
   res_setCookie (ctx (commit (calls inherited cs (reflash opts s)))) =
     res_setCookie (ctx s) @
       [\<lparr>sc_name = cookieName s,
         sc_value = JSON_stringify (Flash_to_json (nxt (calls inherited cs (reflash opts s)))),
         sc_path = ''/'', sc_maxAge = None\<rparr>] \<and>
   (\<not> refused_name name \<longrightarrow>
      new_FlashStore request_without_cookie name =
        Inr (constructed request_without_cookie name invalid_Flash)) \<and>
   \<not> fvalid (current (constructed request_without_cookie name invalid_Flash)) \<and>
   res_setCookie (ctx (commit (reflash no_options
                     (constructed request_without_cookie name invalid_Flash)))) =
     res_setCookie (ctx (constructed request_without_cookie name invalid_Flash)) @
       [\<lparr>sc_name = name, sc_value = ''{\"valid\":true,\"values\":[]}'',
         sc_path = ''/'', sc_maxAge = None\<rparr>]"
proof -
  have v: "fvalid (nxt (reflash opts s))" for opts s
    by (simp add: reflash_def)
  have vc: "fvalid (nxt (calls inherited cs (reflash opts s)))"
    by (rule calls_keep(1)) (rule v)
  have same: "ctx (reflash opts s) = ctx s" "cookieName (reflash opts s) = cookieName s" for opts s
    by (simp_all add: reflash_def)
  have w: "res_setCookie (ctx (commit (calls inherited cs (reflash opts s)))) =
     res_setCookie (ctx s) @
       [\<lparr>sc_name = cookieName s,
         sc_value = JSON_stringify (Flash_to_json (nxt (calls inherited cs (reflash opts s)))),
         sc_path = ''/'', sc_maxAge = None\<rparr>]"
    using commit_writes [OF vc] by (simp add: calls_keep same)
  let ?fresh = "constructed request_without_cookie name invalid_Flash"
  have built: "\<not> refused_name name \<longrightarrow> new_FlashStore request_without_cookie name = Inr ?fresh"
    by (simp add: new_FlashStore_no_cookie request_without_cookie_def)
  have inv: "\<not> fvalid (current ?fresh)"
    by (simp add: constructed_def invalid_Flash_def)
  have nx: "nxt (reflash no_options ?fresh) = \<lparr>fvalues = [], fvalid = True\<rparr>"
    by (simp add: reflash_def no_options_def or_true_def or_empty_def valuesToReflash_def
        filterFlashValues_def constructed_def invalid_Flash_def)
  have e: "res_setCookie (ctx (commit (reflash no_options ?fresh))) =
     res_setCookie (ctx ?fresh) @
       [\<lparr>sc_name = name, sc_value = ''{\"valid\":true,\"values\":[]}'',
         sc_path = ''/'', sc_maxAge = None\<rparr>]"
    using commit_writes [OF v [of no_options ?fresh]]
    by (simp add: same nx stringify_empty_valid) (simp add: constructed_def)
  from v vc w built inv e show ?thesis by blast
qed

theorem C10_reflash_marks_next_valid_witness:
  "new_FlashStore request_without_cookie ''flash'' = Inr fresh_store \<and>
   \<not> fvalid (current fresh_store) \<and>
   res_setCookie (ctx (commit (reflash no_options fresh_store))) =
     [\<lparr>sc_name = ''flash'', sc_value = [], sc_path = ''/'', sc_maxAge = Some 0\<rparr>,
      \<lparr>sc_name = ''flash'', sc_value = ''{\"valid\":true,\"values\":[]}'',
        sc_path = ''/'', sc_maxAge = None\<rparr>]"
proof -
  have hd: "res_setCookie (ctx fresh_store) =
      [\<lparr>sc_name = ''flash'', sc_value = [], sc_path = ''/'', sc_maxAge = Some 0\<rparr>]"
    by (simp add: fresh_store_def constructed_def setCookie_def request_without_cookie_def)
  from C10_reflash_marks_next_valid [of no_options fresh_store ecma262_inherited "[]" "''flash''"]
       flash_not_refused hd
  show ?thesis
    unfolding fresh_store_def [symmetric] by simp
qed

section \<open>Claims about the request scope\<close>

lemma serialize_loop_error:
  "serialize_loop inherited obj es = Inl err \<Longrightarrow> err = TypeError"
proof (induction es arbitrary: obj)
  case Nil
  then show ?case by simp
next
  case (Cons e es)
  obtain k v where e: "e = (k, v)" by (cases e)
  show ?case
  proof (cases "serialize_entry inherited obj e")
    case (Inl x)
    with Cons.prems have "x = err" by simp
    with Inl e show ?thesis
      by (cases v) (auto split: option.splits if_splits)
  next
    case (Inr obj')
    with Cons show ?thesis by simp
  qed
qed

lemma flashInputs_error:
  "flashInputs inherited s = Inl err \<Longrightarrow> err = BodyUnreadable \<or> err = TypeError"
  by (auto simp: flashInputs_def serializeFormData_def split: option.splits sum.splits
      dest: serialize_loop_error)

lemma getInputs_error: "getInputs s = Inl err \<Longrightarrow> err = IllTypedInputs"
  by (auto simp: getInputs_def split: if_splits option.splits)

text \<open>
  Claim C8. \<^verbatim>\<open>getFlashStore\<close> raises the error \<open>NoFlashStore\<close> exactly when no store is
  bound in the scope, and returns the bound store otherwise. Each exported function that
  starts by calling it (\<^verbatim>\<open>flash\<close>, \<^verbatim>\<open>flashInputs\<close>, \<^verbatim>\<open>getFlash\<close>, \<^verbatim>\<open>reflash\<close>, \<^verbatim>\<open>old\<close>,
  \<^verbatim>\<open>oldChecked\<close>, \<^verbatim>\<open>oldSelected\<close>) raises that error exactly when no store is bound; the
  other errors they can raise are different ones.
\<close>

theorem C8_scope_violation:
  "(getFlashStore sc = Inl NoFlashStore \<longleftrightarrow> sc = None) \<and>
   getFlashStore (Some store) = Inr store \<and>
   (flash_export k v sc = Inl NoFlashStore \<longleftrightarrow> sc = None) \<and>
   (flashInputs_export inherited sc = Inl NoFlashStore \<longleftrightarrow> sc = None) \<and>
   (getFlash f sc = Inl NoFlashStore \<longleftrightarrow> sc = None) \<and>
   (reflash_export a p e sc = Inl NoFlashStore \<longleftrightarrow> sc = None) \<and>
   (old name sc = Inl NoFlashStore \<longleftrightarrow> sc = None) \<and>
   (oldChecked name sc = Inl NoFlashStore \<longleftrightarrow> sc = None) \<and>
   (oldSelected name optionValue sc = Inl NoFlashStore \<longleftrightarrow> sc = None)"
proof -
  have g: "getFlashStore sc = Inl NoFlashStore \<longleftrightarrow> sc = None"
    by (simp add: getFlashStore_def split: option.splits)
  have b: "getFlashStore (Some store) = Inr store"
    by (simp add: getFlashStore_def)
  have f1: "flash_export k v sc = Inl NoFlashStore \<longleftrightarrow> sc = None"
    by (simp add: flash_export_def getFlashStore_def split: option.splits)
  have f2: "flashInputs_export inherited sc = Inl NoFlashStore \<longleftrightarrow> sc = None"
    by (auto simp: flashInputs_export_def getFlashStore_def split: option.splits sum.splits
        dest: flashInputs_error)
  have f3: "getFlash f sc = Inl NoFlashStore \<longleftrightarrow> sc = None"
    by (simp add: getFlash_def getFlashStore_def split: option.splits)
  have f4: "reflash_export a p e sc = Inl NoFlashStore \<longleftrightarrow> sc = None"
    by (simp add: reflash_export_def getFlashStore_def split: option.splits)
  have f5: "old name sc = Inl NoFlashStore \<longleftrightarrow> sc = None"
    by (auto simp: old_def getFlashStore_def split: option.splits sum.splits
        dest: getInputs_error)
  have f6: "oldChecked name sc = Inl NoFlashStore \<longleftrightarrow> sc = None"
    by (auto simp: oldChecked_def getFlashStore_def split: option.splits sum.splits
        dest: getInputs_error)
  have f7: "oldSelected name optionValue sc = Inl NoFlashStore \<longleftrightarrow> sc = None"
    by (auto simp: oldSelected_def getFlashStore_def split: option.splits sum.splits
        dest: getInputs_error)
  from g b f1 f2 f3 f4 f5 f6 f7 show ?thesis by blast
qed

theorem C8_scope_violation_witness:
  "getFlashStore None = Inl NoFlashStore \<and>
   getFlashStore (Some form_store) = Inr form_store \<and>
   old ''name'' None = Inl NoFlashStore \<and>
   old ''name'' (Some form_store) \<noteq> Inl NoFlashStore \<and>
   flashInputs_export ecma262_inherited (Some form_store) \<noteq> Inl NoFlashStore"
  using C8_scope_violation [of None form_store "KString []" JNull ecma262_inherited "KString []" None None None "''name''" "[]"]
        C8_scope_violation [of "Some form_store" form_store "KString []" JNull ecma262_inherited "KString []" None None None "''name''" "[]"]
  by simp

section \<open>Claims about a flash across two requests\<close>

lemma too_short_cookie_parse: "JSON_parse too_short_cookie = Inr (Flash_to_json too_short_Flash)"
  by code_simp

lemma too_short_cookie_stringify: "JSON_stringify (Flash_to_json too_short_Flash) = too_short_cookie"
  by code_simp

lemma too_short_Flash_schema:
  "isFlash (Flash_to_json too_short_Flash)"
  "as_Flash (Flash_to_json too_short_Flash) = too_short_Flash"
  by code_simp+

lemma get_too_short:
  "current s = too_short_Flash \<Longrightarrow> get s (Some (KString ''error'')) = Values [JStr ''too short'']"
  by (simp add: too_short_Flash_def every_def)

lemma too_short_store_constructed:
  "new_FlashStore (request_with_cookie too_short_cookie) ''flash'' = Inr too_short_store"
  by code_simp

text \<open>
  Claim C1, as the code has it. On the store that the constructor returns for a request
  without the cookie, \<^verbatim>\<open>flash("error", "too short")\<close> writes to \<^verbatim>\<open>next\<close> only:
  \<^verbatim>\<open>get("error")\<close> in the same request returns the empty list. \<^verbatim>\<open>commit\<close> then appends,
  after the header that expired the old cookie, one header whose value parses to
  \<^verbatim>\<open>{valid: true, values: [{key: ["ext","error"], value: "too short"}]}\<close>. The store that
  the constructor returns in the next request, which carries that cookie, has this
  container as \<^verbatim>\<open>current\<close>, and there \<^verbatim>\<open>get("error")\<close> returns the one-element list
  \<^verbatim>\<open>["too short"]\<close>. The cookie name is any name the framework does not refuse, so that
  there is a store.
\<close>

theorem C1_flash_is_read_by_the_next_request:
  assumes "map_of (req_cookies c) name = None" and "\<not> refused_name name"
  shows "new_FlashStore c name = Inr (constructed c name invalid_Flash) \<and>
         get (flash (KString ''error'') (JStr ''too short'') (constructed c name invalid_Flash))
             (Some (KString ''error'')) = Values [] \<and>
         res_setCookie (ctx (commit (flash (KString ''error'') (JStr ''too short'')
                                       (constructed c name invalid_Flash)))) =
           res_setCookie c @
             [\<lparr>sc_name = name, sc_value = [], sc_path = ''/'', sc_maxAge = Some 0\<rparr>,
              \<lparr>sc_name = name, sc_value = too_short_cookie, sc_path = ''/'', sc_maxAge = None\<rparr>] \<and>
         JSON_parse too_short_cookie = Inr (Flash_to_json too_short_Flash) \<and>
         (map_of (req_cookies c') name = Some too_short_cookie \<longrightarrow>
            new_FlashStore c' name = Inr (constructed c' name too_short_Flash) \<and>
            get (constructed c' name too_short_Flash) (Some (KString ''error'')) =
              Values [JStr ''too short''])"
proof -
  let ?s0 = "constructed c name invalid_Flash"
  let ?s1 = "flash (KString ''error'') (JStr ''too short'') ?s0"
  have built: "new_FlashStore c name = Inr ?s0"
    by (rule new_FlashStore_no_cookie [OF assms(2) assms(1)])
  have g: "get ?s1 (Some (KString ''error'')) = Values []"
    by (simp add: flash_def constructed_def invalid_Flash_def)
  have nx: "nxt ?s1 = too_short_Flash"
    by (simp add: flash_def constructed_def invalid_Flash_def too_short_Flash_def)
  have v: "fvalid (nxt ?s1)"
    by (simp add: nx too_short_Flash_def)
  have w: "res_setCookie (ctx (commit ?s1)) =
           res_setCookie c @
             [\<lparr>sc_name = name, sc_value = [], sc_path = ''/'', sc_maxAge = Some 0\<rparr>,
              \<lparr>sc_name = name, sc_value = too_short_cookie, sc_path = ''/'', sc_maxAge = None\<rparr>]"
    using commit_writes [OF v]
    by (simp add: nx too_short_cookie_stringify)
       (simp add: flash_def constructed_def setCookie_def)
  have n: "map_of (req_cookies c') name = Some too_short_cookie \<longrightarrow>
            new_FlashStore c' name = Inr (constructed c' name too_short_Flash) \<and>
            get (constructed c' name too_short_Flash) (Some (KString ''error'')) =
              Values [JStr ''too short'']"
  proof
    assume ck: "map_of (req_cookies c') name = Some too_short_cookie"
    have ne: "too_short_cookie \<noteq> []" by (simp add: too_short_cookie_def)
    have "new_FlashStore c' name = Inr (constructed c' name (as_Flash (Flash_to_json too_short_Flash)))"
      by (rule new_FlashStore_cookie
            [OF assms(2) ck ne too_short_cookie_parse too_short_Flash_schema(1)])
    then have b2: "new_FlashStore c' name = Inr (constructed c' name too_short_Flash)"
      by (simp add: too_short_Flash_schema(2))
    have "current (constructed c' name too_short_Flash) = too_short_Flash"
      by (simp add: constructed_def)
    then have "get (constructed c' name too_short_Flash) (Some (KString ''error'')) =
        Values [JStr ''too short'']"
      by (rule get_too_short)
    with b2 show "new_FlashStore c' name = Inr (constructed c' name too_short_Flash) \<and>
            get (constructed c' name too_short_Flash) (Some (KString ''error'')) =
              Values [JStr ''too short'']"
      by blast
  qed
  from built g w too_short_cookie_parse n show ?thesis by blast
qed

theorem C1_flash_is_read_by_the_next_request_witness:
  "new_FlashStore request_without_cookie ''flash'' = Inr fresh_store \<and>
   get (flash (KString ''error'') (JStr ''too short'') fresh_store)
       (Some (KString ''error'')) = Values [] \<and>
   res_setCookie (ctx (commit (flash (KString ''error'') (JStr ''too short'') fresh_store))) =
     [\<lparr>sc_name = ''flash'', sc_value = [], sc_path = ''/'', sc_maxAge = Some 0\<rparr>,
      \<lparr>sc_name = ''flash'', sc_value = too_short_cookie, sc_path = ''/'', sc_maxAge = None\<rparr>] \<and>
   new_FlashStore (request_with_cookie too_short_cookie) ''flash'' = Inr too_short_store \<and>
   get too_short_store (Some (KString ''error'')) = Values [JStr ''too short'']"
proof -
  have h1: "map_of (req_cookies request_without_cookie) ''flash'' = None"
    by (simp add: request_without_cookie_def)
  have h2: "map_of (req_cookies (request_with_cookie too_short_cookie)) ''flash'' = Some too_short_cookie"
    by (simp add: request_with_cookie_def)
  have e: "res_setCookie request_without_cookie = []"
    by (simp add: request_without_cookie_def)
  from C1_flash_is_read_by_the_next_request
         [OF h1 flash_not_refused, of "request_with_cookie too_short_cookie"] h2 e
  show ?thesis
    unfolding fresh_store_def [symmetric] too_short_store_def [symmetric]
    by (simp del: get.simps)
qed

text \<open>
  Claim C1 as stated fails: in the request that flashed the message, \<^verbatim>\<open>get("error")\<close> does
  not return \<^verbatim>\<open>["too short"]\<close>.
\<close>

theorem C1_counterexample:
  "new_FlashStore request_without_cookie ''flash'' = Inr fresh_store \<and>
   get (flash (KString ''error'') (JStr ''too short'') fresh_store)
       (Some (KString ''error'')) \<noteq> Values [JStr ''too short'']"
proof -
  have "get (flash (KString ''error'') (JStr ''too short'') fresh_store)
       (Some (KString ''error'')) \<noteq> Values [JStr ''too short'']"
    by (simp add: fresh_store_def constructed_def flash_def invalid_Flash_def)
  with fresh_store_constructed show ?thesis by blast
qed

lemma getInputs_invalid: "\<not> fvalid (current s) \<Longrightarrow> getInputs s = Inr None"
  by (simp add: getInputs_def)

lemma invalid_but_filled_store_constructed:
  "new_FlashStore (request_with_cookie invalid_but_filled_cookie) ''flash'' =
     Inr invalid_but_filled_store"
  by code_simp

text \<open>
  Claim C2. A store whose \<^verbatim>\<open>current\<close> has \<^verbatim>\<open>valid = false\<close> should read as empty.
  \<^verbatim>\<open>getInputs\<close> does test the flag, \<^verbatim>\<open>get\<close> does not: for the cookie
  \<^verbatim>\<open>{"valid":false,"values":[{"key":["ext","a"],"value":"x"}]}\<close>, which passes the schema
  check, the constructor returns a store whose \<^verbatim>\<open>current.valid\<close> is false and yet
  \<^verbatim>\<open>get("a")\<close> returns \<^verbatim>\<open>["x"]\<close> and \<^verbatim>\<open>get()\<close> returns the container with its value, while
  \<^verbatim>\<open>getInputs()\<close> returns no value.
\<close>

theorem C2_get_ignores_valid:
  "new_FlashStore (request_with_cookie invalid_but_filled_cookie) ''flash'' =
     Inr invalid_but_filled_store \<and>
   \<not> fvalid (current invalid_but_filled_store) \<and>
   get invalid_but_filled_store (Some (KString ''a'')) = Values [JStr ''x''] \<and>
   get invalid_but_filled_store None
     = Container \<lparr>fvalues = [\<lparr>fkey = [''ext'', ''a''], fvalue = JStr ''x''\<rparr>], fvalid = False\<rparr> \<and>
   getInputs invalid_but_filled_store = Inr None"
proof -
  have cur: "current invalid_but_filled_store =
      \<lparr>fvalues = [\<lparr>fkey = [''ext'', ''a''], fvalue = JStr ''x''\<rparr>], fvalid = False\<rparr>"
    by (simp add: invalid_but_filled_store_def constructed_def)
  have i: "\<not> fvalid (current invalid_but_filled_store)"
    by (simp add: cur)
  have g1: "get invalid_but_filled_store (Some (KString ''a'')) = Values [JStr ''x'']"
    by (simp add: cur every_def)
  have g2: "get invalid_but_filled_store None
     = Container \<lparr>fvalues = [\<lparr>fkey = [''ext'', ''a''], fvalue = JStr ''x''\<rparr>], fvalid = False\<rparr>"
    by (simp add: cur)
  from invalid_but_filled_store_constructed i g1 g2 getInputs_invalid [OF i]
  show ?thesis by blast
qed

section \<open>Claims about initialization\<close>





section \<open>Claims about the namespace of reflash\<close>

lemma prefix_of_Cons_self: "prefix xs (a # xs) \<longleftrightarrow> (\<forall>x \<in> set xs. x = a)"
proof (induction xs arbitrary: a)
  case Nil
  show ?case by simp
next
  case (Cons x xs)
  have "prefix (x # xs) (a # x # xs) \<longleftrightarrow> x = a \<and> prefix xs (x # xs)"
    by simp
  with Cons.IH [of x] show ?case by auto
qed

lemma get_prefix:
  "get s (Some k) = Values (map fvalue (filter (\<lambda>w. prefix (''ext'' # flat k) (fkey w)) (fvalues (current s))))"
  unfolding get.simps every_path_is_prefix path_is_prefix_iff_prefix ..

lemma normalizeFilters_as_filters:
  "0 < filters_length (as_filters k) \<Longrightarrow> normalizeFilters (as_filters k) = [flat k]"
  by (cases k) (auto simp: neq_Nil_conv)

lemma valuesToReflash_pick_only:
  "0 < filters_length (as_filters k) \<Longrightarrow>
   valuesToReflash (pick_only k) s = filter (\<lambda>w. prefix (flat k) (fkey w)) (fvalues (current s))"
  by (simp add: valuesToReflash_def pick_only_def or_empty_def filterFlashValues_def
      checkKeyAgainstFilters_matches matches_def normalizeFilters_as_filters
      path_is_prefix_iff_prefix)

lemma valuesToReflash_pick_empty:
  "filters_length (as_filters k) = 0 \<Longrightarrow> valuesToReflash (pick_only k) s = fvalues (current s)"
  by (simp add: valuesToReflash_def pick_only_def or_empty_def filterFlashValues_def)

text \<open>
  Claim C9, as the code has it. \<^verbatim>\<open>flash(k, v)\<close> stores the value under the key
  \<^verbatim>\<open>["ext", ...k]\<close>. \<^verbatim>\<open>get(k)\<close> prepends \<^verbatim>\<open>"ext"\<close> to its filter; \<^verbatim>\<open>reflash({pick: k})\<close> does
  not, it matches \<open>k\<close> against the whole stored key. For a non-empty \<open>k\<close> (a non-empty
  string or a non-empty array) the value stored by \<^verbatim>\<open>flash(k, v)\<close> is therefore carried
  forward exactly when every segment of \<open>k\<close> is \<^verbatim>\<open>"ext"\<close>; in particular it is not carried
  forward unless the first segment of \<open>k\<close> is \<^verbatim>\<open>"ext"\<close>. For an empty \<open>k\<close> (the empty
  string or the empty array) \<^verbatim>\<open>pick\<close> counts as absent and every value of \<^verbatim>\<open>current\<close> is
  carried forward.
\<close>

theorem C9_reflash_does_not_prepend_ext:
  "fvalues (nxt (flash k v s)) = fvalues (nxt s) @ [\<lparr>fkey = ''ext'' # flat k, fvalue = v\<rparr>] \<and>
   get s (Some k) =
     Values (map fvalue (filter (\<lambda>w. prefix (''ext'' # flat k) (fkey w)) (fvalues (current s)))) \<and>
   (0 < filters_length (as_filters k) \<longrightarrow>
      valuesToReflash (pick_only k) s =
        filter (\<lambda>w. prefix (flat k) (fkey w)) (fvalues (current s)) \<and>
      (\<lparr>fkey = ''ext'' # flat k, fvalue = v\<rparr> \<in> set (valuesToReflash (pick_only k) s) \<longleftrightarrow>
         \<lparr>fkey = ''ext'' # flat k, fvalue = v\<rparr> \<in> set (fvalues (current s)) \<and>
         (\<forall>seg \<in> set (flat k). seg = ''ext'')) \<and>
      (\<lparr>fkey = ''ext'' # flat k, fvalue = v\<rparr> \<in> set (valuesToReflash (pick_only k) s) \<longrightarrow>
         hd (flat k) = ''ext'')) \<and>
   (filters_length (as_filters k) = 0 \<longrightarrow>
      valuesToReflash (pick_only k) s = fvalues (current s))"
proof -
  let ?fv = "\<lparr>fkey = ''ext'' # flat k, fvalue = v\<rparr>"
  have st: "fvalues (nxt (flash k v s)) = fvalues (nxt s) @ [?fv]"
    by (simp add: flash_def)
  have ne: "0 < filters_length (as_filters k) \<Longrightarrow> flat k \<noteq> []"
    by (cases k) auto
  have iff: "?fv \<in> set (valuesToReflash (pick_only k) s) \<longleftrightarrow>
         ?fv \<in> set (fvalues (current s)) \<and> (\<forall>seg \<in> set (flat k). seg = ''ext'')"
    if "0 < filters_length (as_filters k)"
    using that by (simp add: valuesToReflash_pick_only prefix_of_Cons_self)
  have first: "hd (flat k) = ''ext''"
    if "0 < filters_length (as_filters k)" "?fv \<in> set (valuesToReflash (pick_only k) s)"
  proof -
    from that iff have "\<forall>seg \<in> set (flat k). seg = ''ext''" by blast
    moreover from that(1) have "hd (flat k) \<in> set (flat k)" using ne by simp
    ultimately show ?thesis by blast
  qed
  have A: "0 < filters_length (as_filters k) \<longrightarrow>
      valuesToReflash (pick_only k) s =
        filter (\<lambda>w. prefix (flat k) (fkey w)) (fvalues (current s)) \<and>
      (?fv \<in> set (valuesToReflash (pick_only k) s) \<longleftrightarrow>
         ?fv \<in> set (fvalues (current s)) \<and> (\<forall>seg \<in> set (flat k). seg = ''ext'')) \<and>
      (?fv \<in> set (valuesToReflash (pick_only k) s) \<longrightarrow> hd (flat k) = ''ext'')"
  proof
    assume len: "0 < filters_length (as_filters k)"
    show "valuesToReflash (pick_only k) s =
        filter (\<lambda>w. prefix (flat k) (fkey w)) (fvalues (current s)) \<and>
      (?fv \<in> set (valuesToReflash (pick_only k) s) \<longleftrightarrow>
         ?fv \<in> set (fvalues (current s)) \<and> (\<forall>seg \<in> set (flat k). seg = ''ext'')) \<and>
      (?fv \<in> set (valuesToReflash (pick_only k) s) \<longrightarrow> hd (flat k) = ''ext'')"
      using valuesToReflash_pick_only [OF len, of s] iff [OF len] first [OF len]
      by (intro conjI impI)
  qed
  have B: "filters_length (as_filters k) = 0 \<longrightarrow>
      valuesToReflash (pick_only k) s = fvalues (current s)"
    using valuesToReflash_pick_empty by (intro impI)
  show ?thesis
    by (intro conjI st get_prefix A B)
qed

lemma empty_key_request:
  "res_setCookie (ctx (commit (flash (KString '''') (JStr ''v'') fresh_store))) =
     [\<lparr>sc_name = ''flash'', sc_value = [], sc_path = ''/'', sc_maxAge = Some 0\<rparr>,
      \<lparr>sc_name = ''flash'', sc_value = empty_key_cookie, sc_path = ''/'', sc_maxAge = None\<rparr>]"
  by code_simp

lemma empty_key_store_constructed:
  "new_FlashStore (request_with_cookie empty_key_cookie) ''flash'' = Inr empty_key_store"
  by code_simp

text \<open>
  Claim C9 as stated fails for the empty string as key: the value stored by
  \<^verbatim>\<open>flash("", "v")\<close> comes back in the next request under \<^verbatim>\<open>["ext", ""]\<close>, and
  \<^verbatim>\<open>reflash({pick: ""})\<close> carries it forward although the first segment of the key is not
  \<^verbatim>\<open>"ext"\<close>.
\<close>

theorem C9_counterexample:
  "new_FlashStore request_without_cookie ''flash'' = Inr fresh_store \<and>
   res_setCookie (ctx (commit (flash (KString '''') (JStr ''v'') fresh_store))) =
     [\<lparr>sc_name = ''flash'', sc_value = [], sc_path = ''/'', sc_maxAge = Some 0\<rparr>,
      \<lparr>sc_name = ''flash'', sc_value = empty_key_cookie, sc_path = ''/'', sc_maxAge = None\<rparr>] \<and>
   new_FlashStore (request_with_cookie empty_key_cookie) ''flash'' = Inr empty_key_store \<and>
   fvalues (nxt (reflash (pick_only (KString '''')) empty_key_store)) =
     [\<lparr>fkey = ''ext'' # flat (KString ''''), fvalue = JStr ''v''\<rparr>] \<and>
   hd (flat (KString '''')) \<noteq> ''ext''"
proof -
  have carried: "valuesToReflash (pick_only (KString '''')) empty_key_store =
      [\<lparr>fkey = [''ext'', ''''], fvalue = JStr ''v''\<rparr>]"
    using valuesToReflash_pick_empty [of "KString ''''" empty_key_store]
    by (simp add: empty_key_store_def constructed_def)
  have b: "fvalues (nxt (reflash (pick_only (KString '''')) empty_key_store)) =
     [\<lparr>fkey = ''ext'' # flat (KString ''''), fvalue = JStr ''v''\<rparr>]"
    unfolding reflash_def carried
    by (simp add: or_true_def pick_only_def empty_key_store_def constructed_def
        invalid_Flash_def)
  have c: "hd (flat (KString '''')) \<noteq> ''ext''"
    by simp
  from fresh_store_constructed empty_key_request empty_key_store_constructed b c
  show ?thesis by blast
qed

theorem C9_reflash_does_not_prepend_ext_witness:
  "new_FlashStore (request_with_cookie too_short_cookie) ''flash'' = Inr too_short_store \<and>
   valuesToReflash (pick_only (KString ''error'')) too_short_store = [] \<and>
   get too_short_store (Some (KString ''error'')) = Values [JStr ''too short''] \<and>
   valuesToReflash (pick_only (KArray [''ext''])) too_short_store = fvalues too_short_Flash \<and>
   valuesToReflash (pick_only (KArray [])) too_short_store = fvalues too_short_Flash"
proof -
  let ?s = "too_short_store"
  have cur: "current ?s = too_short_Flash"
    by (simp add: too_short_store_def constructed_def)
  have l1: "0 < filters_length (as_filters (KString ''error''))" by simp
  have l2: "0 < filters_length (as_filters (KArray [''ext'']))" by simp
  have l3: "filters_length (as_filters (KArray [])) = 0" by simp
  note t1 = C9_reflash_does_not_prepend_ext [of "KString ''error''" JNull ?s]
  note t2 = C9_reflash_does_not_prepend_ext [of "KArray [''ext'']" JNull ?s]
  note t3 = C9_reflash_does_not_prepend_ext [of "KArray []" JNull ?s]
  from t1 l1 have a: "valuesToReflash (pick_only (KString ''error'')) ?s =
      filter (\<lambda>w. prefix (flat (KString ''error'')) (fkey w)) (fvalues (current ?s))"
    by blast
  from t1 have b: "get ?s (Some (KString ''error'')) =
      Values (map fvalue (filter (\<lambda>w. prefix (''ext'' # flat (KString ''error'')) (fkey w))
                                 (fvalues (current ?s))))"
    by blast
  from t2 l2 have c: "valuesToReflash (pick_only (KArray [''ext''])) ?s =
      filter (\<lambda>w. prefix (flat (KArray [''ext''])) (fkey w)) (fvalues (current ?s))"
    by blast
  from t3 l3 have d: "valuesToReflash (pick_only (KArray [])) ?s = fvalues (current ?s)"
    by blast
  show ?thesis
    unfolding a b c d cur by (simp add: too_short_Flash_def too_short_store_constructed)
qed

section \<open>Claims about the form data codec\<close>

lemma map_of_obj_set: "map_of (obj_set ms k v) = (map_of ms)(k \<mapsto> v)"
  by (induction ms k v rule: obj_set.induct) auto

lemma keys_obj_set:
  "map fst (obj_set ms k v) = (if k \<in> set (map fst ms) then map fst ms else map fst ms @ [k])"
  by (induction ms k v rule: obj_set.induct) auto

lemma distinct_obj_set: "distinct (map fst ms) \<Longrightarrow> distinct (map fst (obj_set ms k v))"
  by (simp add: keys_obj_set)

lemma values_of_obj_set:
  "values_of (obj_set ms k v) n = (if n = k then v else values_of ms n)"
  by (simp add: values_of_def map_of_obj_set)

lemma serialize_entry_string:
  "k \<notin> set inherited \<Longrightarrow>
   serialize_entry inherited obj (k, StringValue v) = Inr (obj_set obj k (values_of obj k @ [v]))"
  by (simp add: values_of_def split: option.splits)

lemma serialize_loop_groups:
  assumes "\<forall>e \<in> set es. is_StringValue (snd e) \<longrightarrow> fst e \<notin> set inherited"
    and "distinct (map fst obj)"
  shows "\<exists>r. serialize_loop inherited obj es = Inr r \<and> distinct (map fst r) \<and>
             (\<forall>n. values_of r n = values_of obj n @ named_strings es n)"
  using assms
proof (induction es arbitrary: obj)
  case Nil
  then show ?case by simp
next
  case (Cons e es)
  obtain k v where e: "e = (k, v)" by (cases e)
  show ?case
  proof (cases v)
    case (StringValue s)
    with Cons.prems(1) e have k: "k \<notin> set inherited" by simp
    let ?obj = "obj_set obj k (values_of obj k @ [s])"
    have step: "serialize_entry inherited obj e = Inr ?obj"
      unfolding e StringValue by (rule serialize_entry_string [OF k])
    have d: "distinct (map fst ?obj)"
      using Cons.prems(2) by (rule distinct_obj_set)
    from Cons.prems(1) have rest: "\<forall>e \<in> set es. is_StringValue (snd e) \<longrightarrow> fst e \<notin> set inherited"
      by simp
    from Cons.IH [OF rest d] obtain r where
      r: "serialize_loop inherited ?obj es = Inr r" "distinct (map fst r)"
         "\<forall>n. values_of r n = values_of ?obj n @ named_strings es n"
      by blast
    have "\<forall>n. values_of r n = values_of obj n @ named_strings (e # es) n"
      using r(3) e StringValue by (simp add: values_of_obj_set)
    with r(1,2) step show ?thesis by simp
  next
    case (FileValue f c)
    with e have step: "serialize_entry inherited obj e = Inr obj" by simp
    from Cons.prems(1) have rest: "\<forall>e \<in> set es. is_StringValue (snd e) \<longrightarrow> fst e \<notin> set inherited"
      by simp
    from Cons.IH [OF rest Cons.prems(2)] obtain r where
      r: "serialize_loop inherited obj es = Inr r" "distinct (map fst r)"
         "\<forall>n. values_of r n = values_of obj n @ named_strings es n"
      by blast
    have "\<forall>n. values_of r n = values_of obj n @ named_strings (e # es) n"
      using r(3) e FileValue by simp
    with r(1,2) step show ?thesis by simp
  qed
qed

lemma mset_own_entries: "mset (own_entries ms) = mset ms"
  by (simp add: own_entries_def)

lemma set_own_entries: "set (own_entries ms) = set ms"
  using mset_own_entries [of ms] by (metis set_mset_mset)

lemma distinct_own_entries:
  "distinct (map fst ms) \<Longrightarrow> distinct (map fst (own_entries ms))"
proof -
  assume d: "distinct (map fst ms)"
  have "mset (map fst (own_entries ms)) = mset (map fst ms)"
    using mset_own_entries [of ms] by (metis mset_map)
  then show ?thesis using d by (metis mset_eq_imp_distinct_iff)
qed

lemma values_of_own_entries:
  "distinct (map fst r) \<Longrightarrow> values_of (own_entries r) n = values_of r n"
proof -
  assume d: "distinct (map fst r)"
  have "map_of (own_entries r) = map_of r"
    using map_of_inject_set [OF distinct_own_entries [OF d] d] set_own_entries by blast
  then show ?thesis by (simp add: values_of_def)
qed

lemma fd_getAll_append: "fd_getAll (a @ b) n = fd_getAll a n @ fd_getAll b n"
  by (simp add: fd_getAll_def)

lemma fd_getAll_expand_one:
  "fd_getAll (map (\<lambda>v. (k, StringValue v)) vs) n = (if k = n then map StringValue vs else [])"
  by (induction vs) (auto simp: fd_getAll_def)

lemma fd_getAll_expand:
  "distinct (map fst es) \<Longrightarrow>
   fd_getAll (concat (map (\<lambda>(k, vs). map (\<lambda>v. (k, StringValue v)) vs) es)) n =
     map StringValue (values_of es n)"
proof (induction es)
  case Nil
  show ?case by (simp add: fd_getAll_def values_of_def)
next
  case (Cons e es)
  obtain k vs where e: "e = (k, vs)" by (cases e)
  from Cons.prems e have k: "k \<notin> fst ` set es" and d: "distinct (map fst es)" by auto
  from Cons.IH [OF d] have ih:
    "fd_getAll (concat (map (\<lambda>(k, vs). map (\<lambda>v. (k, StringValue v)) vs) es)) n =
       map StringValue (values_of es n)" .
  show ?case
  proof (cases "k = n")
    case True
    with k have "map_of es n = None" by (simp add: map_of_eq_None_iff)
    then have "values_of es n = []" by (simp add: values_of_def)
    with ih e True show ?thesis
      by (simp add: fd_getAll_append fd_getAll_expand_one values_of_def)
  next
    case False
    with ih e show ?thesis
      by (simp add: fd_getAll_append fd_getAll_expand_one values_of_def)
  qed
qed

lemma fd_getAll_deserialize:
  "distinct (map fst r) \<Longrightarrow> fd_getAll (deserializeFormData r) n = map StringValue (values_of r n)"
  unfolding deserializeFormData_def
  by (simp add: fd_getAll_expand distinct_own_entries values_of_own_entries)

lemma fd_getAll_string_entries:
  "fd_getAll (string_entries x) n = map StringValue (named_strings x n)"
  by (induction x n rule: named_strings.induct) (auto simp: fd_getAll_def string_entries_def)

lemma count_fd_getAll:
  "count (mset fd) (n, v) = count (mset (fd_getAll fd n)) v"
  by (induction fd) (auto simp: fd_getAll_def)

lemma mset_eq_by_names:
  assumes "\<forall>n. fd_getAll a n = fd_getAll b n"
  shows "mset a = mset b"
proof (rule multiset_eqI)
  fix e :: "string \<times> entry_value"
  obtain n v where e: "e = (n, v)" by (cases e)
  from assms have "fd_getAll a n = fd_getAll b n" by blast
  then show "count (mset a) e = count (mset b) e"
    by (simp add: e count_fd_getAll)
qed

text \<open>
  Claim C3, as the code has it. Let \<open>x\<close> be a form submission none of whose string
  fields bears a name that a plain object inherits. Then \<^verbatim>\<open>serializeFormData\<close> returns,
  and \<^verbatim>\<open>deserializeFormData\<close> of its result agrees with the string entries of \<open>x\<close> name
  by name: for every field name the list of its values is the same, in the same order and
  with the same multiplicity, and the two hold the same entries with the same
  multiplicities. Entries that are not strings are dropped. The order between entries of
  different names is not kept: the result lists the entries grouped by name.
\<close>

theorem C3_form_round_trip_by_name:
  assumes "\<forall>e \<in> set x. is_StringValue (snd e) \<longrightarrow> fst e \<notin> set inherited"
  shows "\<exists>r. serializeFormData inherited x = Inr r \<and>
             (\<forall>n. fd_getAll (deserializeFormData r) n = fd_getAll (string_entries x) n) \<and>
             mset (deserializeFormData r) = mset (string_entries x)"
proof -
  have "distinct (map fst ([] :: Record))" by simp
  from serialize_loop_groups [OF assms this] obtain r where
    r: "serialize_loop inherited [] x = Inr r" "distinct (map fst r)"
       "\<forall>n. values_of r n = values_of [] n @ named_strings x n"
    by blast
  have names: "\<forall>n. fd_getAll (deserializeFormData r) n = fd_getAll (string_entries x) n"
    using r(2,3) by (simp add: fd_getAll_deserialize fd_getAll_string_entries values_of_def)
  from names have "mset (deserializeFormData r) = mset (string_entries x)"
    by (rule mset_eq_by_names)
  with r(1) names show ?thesis
    by (auto simp: serializeFormData_def)
qed

lemma interleaved_serialized:
  "serializeFormData ecma262_inherited interleaved_form = Inr [(''a'', [''1'', ''3'']), (''b'', [''2''])]"
  by code_simp

lemma interleaved_deserialized:
  "deserializeFormData [(''a'', [''1'', ''3'']), (''b'', [''2''])] =
     [(''a'', StringValue ''1''), (''a'', StringValue ''3''), (''b'', StringValue ''2'')]"
  by code_simp

text \<open>
  Claim C3 as stated fails where two values of one field are separated by another field:
  \<^verbatim>\<open>a=1, b=2, a=3\<close> comes back as \<^verbatim>\<open>a=1, a=3, b=2\<close>, although every value is a string.
\<close>

theorem C3_counterexample:
  "serializeFormData ecma262_inherited interleaved_form =
     Inr [(''a'', [''1'', ''3'']), (''b'', [''2''])] \<and>
   deserializeFormData [(''a'', [''1'', ''3'']), (''b'', [''2''])] =
     [(''a'', StringValue ''1''), (''a'', StringValue ''3''), (''b'', StringValue ''2'')] \<and>
   deserializeFormData [(''a'', [''1'', ''3'']), (''b'', [''2''])] \<noteq> interleaved_form \<and>
   list_all (\<lambda>e. is_StringValue (snd e)) interleaved_form"
proof -
  have ne: "deserializeFormData [(''a'', [''1'', ''3'']), (''b'', [''2''])] \<noteq> interleaved_form"
    unfolding interleaved_deserialized by (simp add: interleaved_form_def)
  have strs: "list_all (\<lambda>e. is_StringValue (snd e)) interleaved_form"
    by (simp add: interleaved_form_def)
  from interleaved_serialized interleaved_deserialized ne strs show ?thesis by blast
qed

theorem C3_form_round_trip_by_name_witness:
  "fd_getAll (deserializeFormData [(''a'', [''1'', ''3'']), (''b'', [''2''])]) ''a'' =
     [StringValue ''1'', StringValue ''3''] \<and>
   fd_getAll interleaved_form ''a'' = [StringValue ''1'', StringValue ''3''] \<and>
   mset (deserializeFormData [(''a'', [''1'', ''3'']), (''b'', [''2''])]) = mset interleaved_form"
proof -
  have h: "\<forall>e \<in> set interleaved_form. is_StringValue (snd e) \<longrightarrow> fst e \<notin> set ecma262_inherited"
    by (simp add: interleaved_form_def ecma262_inherited_def)
  have se: "string_entries interleaved_form = interleaved_form"
    by (simp add: string_entries_def interleaved_form_def)
  from C3_form_round_trip_by_name [OF h] obtain r where
    r: "serializeFormData ecma262_inherited interleaved_form = Inr r"
       "\<forall>n. fd_getAll (deserializeFormData r) n = fd_getAll (string_entries interleaved_form) n"
       "mset (deserializeFormData r) = mset (string_entries interleaved_form)"
    by blast
  from r(1) interleaved_serialized have req: "r = [(''a'', [''1'', ''3'']), (''b'', [''2''])]"
    by simp
  have a: "fd_getAll interleaved_form ''a'' = [StringValue ''1'', StringValue ''3'']"
    by (simp add: fd_getAll_def interleaved_form_def)
  from r(2) have "fd_getAll (deserializeFormData r) ''a'' = fd_getAll (string_entries interleaved_form) ''a''"
    by blast
  with a r(3) show ?thesis unfolding req se by simp
qed

text \<open>
  For a field whose name a plain object inherits, \<^verbatim>\<open>serializeFormData\<close> raises instead of
  returning.
\<close>

lemma serialize_inherited_name:
  "serializeFormData ecma262_inherited [(''toString'', StringValue ''x'')] = Inl TypeError"
  by code_simp

end
